theory Spec2Isabelle
  imports Complex_Main
begin

section \<open>Python values shared by both load balancers\<close>

text \<open>
  An exception is its class name and its message; \<open>str(e)\<close> is the message.
  Every \<open>raise\<close> of the source is a value \<open>Inl e\<close> of a result type \<open>exn + 'a\<close>.
\<close>

datatype exn = Exn string string

fun str_exn :: "exn \<Rightarrow> string" where
  "str_exn (Exn cls msg) = msg"

definition IndexError :: exn where
  "IndexError = Exn ''IndexError'' ''list index out of range''"

definition StopIteration :: exn where
  "StopIteration = Exn ''StopIteration'' ''''"

definition bind_exn :: "exn + 'a \<Rightarrow> ('a \<Rightarrow> exn + 'b) \<Rightarrow> exn + 'b" where
  "bind_exn r f = (case r of Inl e \<Rightarrow> Inl e | Inr v \<Rightarrow> f v)"

text \<open>\<open>xs[i]\<close> for a non-negative literal index: IndexError out of range.\<close>

definition py_index :: "'a list \<Rightarrow> nat \<Rightarrow> exn + 'a" where
  "py_index xs i = (if i < length xs then Inr (xs ! i) else Inl IndexError)"

text \<open>
  A decoded JSON value (\<open>request.json()\<close>): Python's \<open>None\<close>, \<open>bool\<close>, \<open>int\<close>,
  \<open>float\<close> (the finite ones of standard JSON), \<open>str\<close>, \<open>list\<close> and \<open>dict\<close>.
  \<open>body.get("model")\<close> is handed to the selectors unchecked, so their \<open>model\<close> argument
  is any such value.
\<close>

datatype json =
    JNull
  | JBool bool
  | JInt int
  | JFloat real
  | JStr string
  | JArr "json list"
  | JObj "(string \<times> json) list"

text \<open>Python truthiness, as \<open>if model:\<close> and \<open>if body.get("stream", False):\<close> read it.\<close>

fun truthy :: "json \<Rightarrow> bool" where
  "truthy JNull = False"
| "truthy (JBool b) = b"
| "truthy (JInt n) = (n \<noteq> 0)"
| "truthy (JFloat x) = (x \<noteq> 0)"
| "truthy (JStr s) = (s \<noteq> [])"
| "truthy (JArr xs) = (xs \<noteq> [])"
| "truthy (JObj kvs) = (kvs \<noteq> [])"

text \<open>The messages of the two exceptions a value of the wrong type raises.\<close>

fun type_name :: "json \<Rightarrow> string" where
  "type_name JNull = ''NoneType''"
| "type_name (JBool b) = ''bool''"
| "type_name (JInt n) = ''int''"
| "type_name (JFloat x) = ''float''"
| "type_name (JStr s) = ''str''"
| "type_name (JArr xs) = ''list''"
| "type_name (JObj kvs) = ''dict''"

definition quoted :: "string \<Rightarrow> string" where
  "quoted s = CHR 0x27 # s @ [CHR 0x27]"

definition TypeError :: "json \<Rightarrow> exn" where
  "TypeError v = Exn ''TypeError'' (''unhashable type: '' @ quoted (type_name v))"

definition AttributeError :: "json \<Rightarrow> exn" where
  "AttributeError v =
     Exn ''AttributeError''
       (quoted (type_name v) @ '' object has no attribute '' @ quoted ''get'')"

text \<open>Lists and dicts are unhashable: using one as a dict key raises TypeError.\<close>

fun hashable :: "json \<Rightarrow> bool" where
  "hashable (JArr xs) = False"
| "hashable (JObj kvs) = False"
| "hashable v = True"

text \<open>
  A dict with string keys is an association list in insertion order. \<open>d.get(k, dflt)\<close>
  with a key of any JSON type: only a string can equal a string key.
\<close>

definition dict_get :: "(string \<times> 'v) list \<Rightarrow> json \<Rightarrow> 'v \<Rightarrow> exn + 'v" where
  "dict_get d k dflt =
     (if \<not> hashable k then Inl (TypeError k)
      else case k of
             JStr s \<Rightarrow> (case map_of d s of Some v \<Rightarrow> Inr v | None \<Rightarrow> Inr dflt)
           | _ \<Rightarrow> Inr dflt)"

text \<open>\<open>k in d\<close>.\<close>

definition dict_contains :: "(string \<times> 'v) list \<Rightarrow> json \<Rightarrow> exn + bool" where
  "dict_contains d k =
     (if \<not> hashable k then Inl (TypeError k)
      else case k of
             JStr s \<Rightarrow> Inr (map_of d s \<noteq> None)
           | _ \<Rightarrow> Inr False)"

text \<open>\<open>d[k] = v\<close>: an existing key keeps its place, a new key goes last.\<close>

fun dict_set :: "'k \<Rightarrow> 'v \<Rightarrow> ('k \<times> 'v) list \<Rightarrow> ('k \<times> 'v) list" where
  "dict_set k v [] = [(k, v)]"
| "dict_set k v ((k', v') # kvs) =
     (if k = k' then (k, v) # kvs else (k', v') # dict_set k v kvs)"

section \<open>The model registry (the same dict literal in both files)\<close>

text \<open>
  \<^verbatim>\<open>
  {"meta-llama/Llama-3.1-8B-Instruct": [endpoints[0], endpoints[1]],
   "Qwen/Qwen2.5-7B-Instruct": [endpoints[2], endpoints[3]],
   "meta-llama/Llama-3.3-70B-Instruct": [endpoints[4], endpoints[5]]}
  \<close>
  The six index expressions are evaluated whenever the literal is, whatever the model.
\<close>

definition model_endpoints :: "string list \<Rightarrow> exn + (string \<times> string list) list" where
  "model_endpoints eps =
     bind_exn (py_index eps 0) (\<lambda>e0.
     bind_exn (py_index eps 1) (\<lambda>e1.
     bind_exn (py_index eps 2) (\<lambda>e2.
     bind_exn (py_index eps 3) (\<lambda>e3.
     bind_exn (py_index eps 4) (\<lambda>e4.
     bind_exn (py_index eps 5) (\<lambda>e5.
       Inr [(''meta-llama/Llama-3.1-8B-Instruct'', [e0, e1]),
            (''Qwen/Qwen2.5-7B-Instruct'', [e2, e3]),
            (''meta-llama/Llama-3.3-70B-Instruct'', [e4, e5])]))))))"

section \<open>The adaptive load balancer (smart-lb)\<close>

subsection \<open>The Load Cache\<close>

text \<open>
  A queue depth is a Python float: a finite number (compared as the real it denotes),
  an infinity or NaN. \<open>qd_less\<close> is Python's \<open><\<close> on floats, \<open>qd_le\<close> its \<open><=\<close>:
  every comparison with NaN is false.
\<close>

datatype qdepth = Fin real | PInf | NInf | NaN

fun qd_less :: "qdepth \<Rightarrow> qdepth \<Rightarrow> bool" where
  "qd_less NaN b = False"
| "qd_less a NaN = False"
| "qd_less (Fin a) (Fin b) = (a < b)"
| "qd_less (Fin a) PInf = True"
| "qd_less (Fin a) NInf = False"
| "qd_less PInf b = False"
| "qd_less NInf NInf = False"
| "qd_less NInf b = True"

fun qd_le :: "qdepth \<Rightarrow> qdepth \<Rightarrow> bool" where
  "qd_le NaN b = False"
| "qd_le a NaN = False"
| "qd_le a b = (a = b \<or> qd_less a b)"

text \<open>One entry of \<open>endpoint_metrics\<close>, the dict \<open>fetch_endpoint_metrics\<close> returns.\<close>

record load_sample =
  endpoint :: string
  queue_depth :: qdepth
  timestamp :: real
  healthy :: bool

type_synonym cache = "(string \<times> load_sample) list"

text \<open>\<open>endpoint_metrics.get(endpoint, {}).get("queue_depth", float('inf'))\<close>\<close>

definition depth_of :: "cache \<Rightarrow> string \<Rightarrow> qdepth" where
  "depth_of c e = (case map_of c e of None \<Rightarrow> PInf | Some m \<Rightarrow> queue_depth m)"

subsection \<open>EndpointSelector.get_best_endpoint\<close>

text \<open>
  The scanning loop, on the pair \<open>(min_queue_depth, best_endpoint)\<close>:
  \<^verbatim>\<open>
  for endpoint in candidates:
      queue_depth = ...
      if queue_depth < min_queue_depth:
          min_queue_depth = queue_depth
          best_endpoint = endpoint
  \<close>
\<close>

fun least_busy :: "cache \<Rightarrow> string list \<Rightarrow> qdepth \<times> string \<Rightarrow> qdepth \<times> string" where
  "least_busy c [] st = st"
| "least_busy c (e # es) (mn, best) =
     (if qd_less (depth_of c e) mn then least_busy c es (depth_of c e, e)
      else least_busy c es (mn, best))"

definition get_best_endpoint :: "string list \<Rightarrow> cache \<Rightarrow> json \<Rightarrow> exn + string" where
  "get_best_endpoint eps c model =
     (if truthy model then
        bind_exn (model_endpoints eps) (\<lambda>reg.
        bind_exn (dict_get reg model (take 2 eps)) (\<lambda>candidates.
        bind_exn (py_index candidates 0) (\<lambda>first.
          Inr (snd (least_busy c candidates (PInf, first))))))
      else
        bind_exn (py_index eps 0) (\<lambda>first.
          Inr (snd (least_busy c eps (PInf, first)))))"

subsection \<open>fetch_endpoint_metrics\<close>

text \<open>
  The payload \<open>response.text\<close> is a Python \<open>str\<close>: a sequence of Unicode code points.
  \<open>codes\<close> gives the code points of a literal of the source.
\<close>

type_synonym ustr = "nat list"

definition codes :: "string \<Rightarrow> ustr" where
  "codes s = map of_char s"

text \<open>
  The code points \<open>str.split()\<close> splits at, those \<open>str.isspace\<close> accepts: U+0009 to
  U+000D, U+001C to U+001F, U+0020, U+0085, U+00A0, U+1680, U+2000 to U+200A, U+2028,
  U+2029, U+202F, U+205F and U+3000.
\<close>

definition is_space :: "nat \<Rightarrow> bool" where
  "is_space n \<longleftrightarrow>
     (0x09 \<le> n \<and> n \<le> 0x0D) \<or> (0x1C \<le> n \<and> n \<le> 0x20) \<or> n = 0x85 \<or> n = 0xA0 \<or>
     n = 0x1680 \<or> (0x2000 \<le> n \<and> n \<le> 0x200A) \<or> n = 0x2028 \<or> n = 0x2029 \<or>
     n = 0x202F \<or> n = 0x205F \<or> n = 0x3000"

text \<open>\<open>s.split(sep)\<close> for a one-character separator: \<open>"".split(sep) == [""]\<close>.\<close>

fun split_on :: "'a \<Rightarrow> 'a list \<Rightarrow> 'a list list" where
  "split_on sep [] = [[]]"
| "split_on sep (x # xs) =
     (if x = sep then [] # split_on sep xs
      else case split_on sep xs of
             [] \<Rightarrow> [[x]]
           | r # rs \<Rightarrow> (x # r) # rs)"

text \<open>\<open>s.split()\<close>: the maximal runs of non-whitespace, \<open>cur\<close> being the run read so far.\<close>

fun split_ws_from :: "ustr \<Rightarrow> ustr \<Rightarrow> ustr list" where
  "split_ws_from cur [] = (if cur = [] then [] else [cur])"
| "split_ws_from cur (x # xs) =
     (if is_space x then (if cur = [] then split_ws_from [] xs else cur # split_ws_from [] xs)
      else split_ws_from (cur @ [x]) xs)"

definition split_ws :: "ustr \<Rightarrow> ustr list" where
  "split_ws s = split_ws_from [] s"

text \<open>\<open>line.startswith(p)\<close> and \<open>key in line\<close>.\<close>

fun startswith :: "'a list \<Rightarrow> 'a list \<Rightarrow> bool" where
  "startswith s [] = True"
| "startswith [] (p # ps) = False"
| "startswith (x # xs) (p # ps) = (x = p \<and> startswith xs ps)"

fun contains :: "'a list \<Rightarrow> 'a list \<Rightarrow> bool" where
  "contains key [] = (key = [])"
| "contains key (x # xs) = (startswith (x # xs) key \<or> contains key xs)"

text \<open>\<open>xs[-1]\<close>\<close>

definition py_last :: "'a list \<Rightarrow> exn + 'a" where
  "py_last xs = (if xs = [] then Inl IndexError else Inr (last xs))"

text \<open>
  Python's built-in \<open>float\<close> is a parameter \<open>pf\<close> of the model: \<open>pf tok = None\<close> is
  ValueError. \<open>parse_depth\<close> is \<open>float(line.split()[-1])\<close>.
\<close>

type_synonym float_parser = "ustr \<Rightarrow> qdepth option"

definition ValueError :: exn where
  "ValueError = Exn ''ValueError'' ''could not convert string to float''"

definition parse_depth :: "float_parser \<Rightarrow> ustr \<Rightarrow> exn + qdepth" where
  "parse_depth pf line =
     bind_exn (py_last (split_ws line)) (\<lambda>tok.
       case pf tok of None \<Rightarrow> Inl ValueError | Some v \<Rightarrow> Inr v)"

definition metric_line :: "ustr \<Rightarrow> bool" where
  "metric_line line \<longleftrightarrow>
     contains (codes ''vllm:num_requests_waiting'') line \<and> \<not> startswith line (codes ''#'')"

text \<open>
  The loop over the payload's lines, on the variable \<open>queue_depth\<close>; the inner
  \<open>except (ValueError, IndexError): pass\<close> keeps the value read so far.
\<close>

fun scan_lines :: "float_parser \<Rightarrow> ustr list \<Rightarrow> qdepth \<Rightarrow> qdepth" where
  "scan_lines pf [] qd = qd"
| "scan_lines pf (line # ls) qd =
     (if metric_line line then
        (case parse_depth pf line of
           Inl e \<Rightarrow> scan_lines pf ls qd
         | Inr v \<Rightarrow> scan_lines pf ls v)
      else scan_lines pf ls qd)"

text \<open>
  What \<open>client.get\<close> did: it raised (connection error, timeout, ...), or it returned a
  response with a status code and a text.
\<close>

datatype http_outcome = Raised exn | Response nat ustr

definition unhealthy :: "string \<Rightarrow> real \<Rightarrow> load_sample" where
  "unhealthy ep now =
     \<lparr>endpoint = ep, queue_depth = PInf, timestamp = now, healthy = False\<rparr>"

text \<open>\<open>now\<close> is the reading of \<open>time.time()\<close>.\<close>

definition fetch_endpoint_metrics ::
    "float_parser \<Rightarrow> string \<Rightarrow> real \<Rightarrow> http_outcome \<Rightarrow> load_sample" where
  "fetch_endpoint_metrics pf ep now out =
     (case out of
        Raised e \<Rightarrow> unhealthy ep now
      | Response code txt \<Rightarrow>
          if code = 200 then
            \<lparr>endpoint = ep,
             queue_depth = scan_lines pf (split_on 0x0A txt) (Fin 0),
             timestamp = now,
             healthy = True\<rparr>
          else unhealthy ep now)"

text \<open>
  A float parser for the concrete payloads below: it reads \<open>inf\<close>, \<open>nan\<close> and the
  decimals \<open>ddd\<close> and \<open>ddd.ddd\<close> in ASCII digits, to what Python's \<open>float\<close> gives for
  them, and rejects every other token. It is applied to the tokens \<open>3\<close>, \<open>3.0\<close> and
  \<open>abc\<close> only, and \<open>float("abc")\<close> raises ValueError. The theorems hold for every
  parser.
\<close>

definition digit_of :: "nat \<Rightarrow> nat option" where
  "digit_of n = (if 0x30 \<le> n \<and> n \<le> 0x39 then Some (n - 0x30) else None)"

fun digits_val :: "nat \<Rightarrow> ustr \<Rightarrow> nat option" where
  "digits_val acc [] = Some acc"
| "digits_val acc (x # xs) =
     (case digit_of x of None \<Rightarrow> None | Some d \<Rightarrow> digits_val (10 * acc + d) xs)"

definition nat_of_digits :: "ustr \<Rightarrow> nat option" where
  "nat_of_digits s = (if s = [] then None else digits_val 0 s)"

definition decimal_float :: float_parser where
  "decimal_float tok =
     (if tok = codes ''inf'' then Some PInf
      else if tok = codes ''nan'' then Some NaN
      else case split_on 0x2E tok of
             [w] \<Rightarrow> map_option (\<lambda>n. Fin (real n)) (nat_of_digits w)
           | [w, f] \<Rightarrow>
               (case (nat_of_digits w, nat_of_digits f) of
                  (Some n, Some m) \<Rightarrow> Some (Fin (real n + real m / 10 ^ length f))
                | _ \<Rightarrow> None)
           | _ \<Rightarrow> None)"

subsection \<open>metrics_poller\<close>

text \<open>
  One tick. Task \<open>i\<close> scrapes \<open>VLLM_ENDPOINTS[i]\<close>; \<open>obs i\<close> is what it observes, its
  clock reading and the outcome of its request. \<open>gather\<close> returns the results in task
  order and the loop stores each under its own \<open>"endpoint"\<close>.
\<close>

type_synonym observations = "nat \<Rightarrow> real \<times> http_outcome"

definition gather_metrics :: "float_parser \<Rightarrow> string list \<Rightarrow> observations \<Rightarrow> load_sample list" where
  "gather_metrics pf eps obs =
     map (\<lambda>i. fetch_endpoint_metrics pf (eps ! i) (fst (obs i)) (snd (obs i))) [0..<length eps]"

definition store_results :: "load_sample list \<Rightarrow> cache \<Rightarrow> cache" where
  "store_results results c = foldl (\<lambda>c m. dict_set (endpoint m) m c) c results"

definition poll_tick :: "float_parser \<Rightarrow> string list \<Rightarrow> observations \<Rightarrow> cache \<Rightarrow> cache" where
  "poll_tick pf eps obs c = store_results (gather_metrics pf eps obs) c"

text \<open>
  The loop \<open>while True\<close>, run for \<open>fuel\<close> iterations: \<open>world t\<close> is what tick \<open>t\<close>
  observes. The state is the number of ticks completed and the cache.
\<close>

fun metrics_poller ::
    "nat \<Rightarrow> float_parser \<Rightarrow> string list \<Rightarrow> (nat \<Rightarrow> observations) \<Rightarrow> nat \<times> cache \<Rightarrow> nat \<times> cache" where
  "metrics_poller 0 pf eps world st = st"
| "metrics_poller (Suc fuel) pf eps world (t, c) =
     metrics_poller fuel pf eps world (Suc t, poll_tick pf eps (world t) c)"

subsection \<open>The health and models-listing handlers\<close>

record health_response =
  status :: string
  endpoints :: nat
  healthy_endpoints :: nat

definition health :: "string list \<Rightarrow> cache \<Rightarrow> health_response" where
  "health eps c =
     (let healthy_count = length (filter healthy (map snd c))
      in \<lparr>status = (if healthy_count > 0 then ''healthy'' else ''unhealthy''),
          endpoints = length eps,
          healthy_endpoints = healthy_count\<rparr>)"

definition model_entry :: "string \<Rightarrow> nat \<Rightarrow> json" where
  "model_entry name n =
     JObj [(''id'', JStr name), (''object'', JStr ''model''), (''replicas'', JInt (int n))]"

text \<open>
  A handler reads the module's globals, here \<open>VLLM_ENDPOINTS\<close> and \<open>endpoint_metrics\<close>;
  \<open>list_models\<close> reads neither.
\<close>

definition list_models :: "string list \<Rightarrow> cache \<Rightarrow> json" where
  "list_models eps c =
     JObj [(''object'', JStr ''list''),
           (''data'', JArr [model_entry ''meta-llama/Llama-3.1-8B-Instruct'' 2,
                            model_entry ''Qwen/Qwen2.5-7B-Instruct'' 2,
                            model_entry ''meta-llama/Llama-3.3-70B-Instruct'' 2])]"

section \<open>The request proxy (the same handler in both files)\<close>

text \<open>
  The inbound request: what \<open>await request.json()\<close> gives (a JSON value, or the exception
  it raises on a malformed body), \<open>request.url.path\<close> and the headers.
\<close>

record request =
  req_json :: "exn + json"
  url_path :: string
  req_headers :: "(string \<times> string) list"

text \<open>
  The backend's response: status code, the \<open>content-type\<close> header if any, what
  \<open>response.json()\<close> gives, and the chunks \<open>aiter_bytes()\<close> yields.
\<close>

record backend_response =
  status_code :: nat
  content_type :: "string option"
  json_body :: "exn + json"
  body_chunks :: "string list"

text \<open>\<open>client.post(url, json=body, headers=...)\<close>: it raises or returns a response.\<close>

type_synonym backend = "string \<Rightarrow> json \<Rightarrow> (string \<times> string) list \<Rightarrow> exn + backend_response"

datatype proxy_result =
    StreamingResponse "string list" "string option" nat
  | JSONResponse json nat
  | HTTPException nat string

text \<open>\<open>body.get(key, dflt)\<close>: only a dict has \<open>get\<close>.\<close>

definition body_get :: "json \<Rightarrow> string \<Rightarrow> json \<Rightarrow> exn + json" where
  "body_get body key dflt =
     (case body of
        JObj kvs \<Rightarrow> (case map_of kvs key of None \<Rightarrow> Inr dflt | Some v \<Rightarrow> Inr v)
      | _ \<Rightarrow> Inl (AttributeError body))"

text \<open>
  The block under \<open># Forward request\<close>, inside the \<open>try\<close>. The second component is the
  log of the URLs posted to.
\<close>

definition forward_request ::
    "backend \<Rightarrow> request \<Rightarrow> json \<Rightarrow> string \<Rightarrow> (exn + proxy_result) \<times> string list" where
  "forward_request post req body ep =
     (let url = ep @ url_path req
      in (bind_exn (post url body (req_headers req)) (\<lambda>response.
          bind_exn (body_get body ''stream'' (JBool False)) (\<lambda>stream.
            if truthy stream then
              Inr (StreamingResponse (body_chunks response) (content_type response)
                     (status_code response))
            else
              bind_exn (json_body response) (\<lambda>content.
                Inr (JSONResponse content (status_code response))))),
          [url]))"

text \<open>\<open>except Exception as e: raise HTTPException(status_code=500, detail=str(e))\<close>\<close>

definition except_500 :: "(exn + proxy_result) \<times> string list \<Rightarrow> proxy_result \<times> string list" where
  "except_500 r =
     (case fst r of
        Inl e \<Rightarrow> (HTTPException 500 (str_exn e), snd r)
      | Inr res \<Rightarrow> (res, snd r))"

definition proxy_request_smart ::
    "string list \<Rightarrow> cache \<Rightarrow> backend \<Rightarrow> request \<Rightarrow> proxy_result \<times> string list" where
  "proxy_request_smart eps c post req =
     except_500
       (case bind_exn (req_json req) (\<lambda>body.
             bind_exn (body_get body ''model'' JNull) (\<lambda>model.
             bind_exn (get_best_endpoint eps c model) (\<lambda>ep. Inr (body, ep)))) of
          Inl e \<Rightarrow> (Inl e, [])
        | Inr (body, ep) \<Rightarrow> forward_request post req body ep)"

section \<open>The round-robin baseline (simple-lb)\<close>

text \<open>
  \<open>itertools.cycle(xs)\<close> over a list: the saved elements and the cursor of the next one.
  \<open>next\<close> on a cycle over nothing raises StopIteration.
\<close>

record 'a cycle =
  cycle_items :: "'a list"
  cycle_pos :: nat

definition cycle_of :: "'a list \<Rightarrow> 'a cycle" where
  "cycle_of xs = \<lparr>cycle_items = xs, cycle_pos = 0\<rparr>"

definition cycle_next :: "'a cycle \<Rightarrow> exn + ('a \<times> 'a cycle)" where
  "cycle_next it =
     (if cycle_items it = [] then Inl StopIteration
      else Inr (cycle_items it ! cycle_pos it,
                it\<lparr>cycle_pos := (cycle_pos it + 1) mod length (cycle_items it)\<rparr>))"

record rr_selector =
  rr_endpoints :: "string list"
  rr_model_endpoints :: "(string \<times> string list) list"
  model_iterators :: "(string \<times> string cycle) list"
  global_iterator :: "string cycle"

text \<open>\<open>RoundRobinSelector.__init__\<close>\<close>

definition RoundRobinSelector :: "string list \<Rightarrow> exn + rr_selector" where
  "RoundRobinSelector eps =
     bind_exn (model_endpoints eps) (\<lambda>reg.
       Inr \<lparr>rr_endpoints = eps,
            rr_model_endpoints = reg,
            model_iterators = map (\<lambda>(m, es). (m, cycle_of es)) reg,
            global_iterator = cycle_of eps\<rparr>)"

definition KeyError :: exn where
  "KeyError = Exn ''KeyError'' ''''"

text \<open>
  \<open>get_next_endpoint\<close> returns the endpoint and the selector with the iterator it used
  advanced; an exception leaves the selector as it was.
\<close>

definition get_next_endpoint :: "rr_selector \<Rightarrow> json \<Rightarrow> exn + (string \<times> rr_selector)" where
  "get_next_endpoint sel model =
     bind_exn (if truthy model then dict_contains (model_iterators sel) model else Inr False)
       (\<lambda>known.
          if known then
            (case model of
               JStr m \<Rightarrow>
                 (case map_of (model_iterators sel) m of
                    Some it \<Rightarrow>
                      bind_exn (cycle_next it) (\<lambda>(ep, it').
                        Inr (ep, sel\<lparr>model_iterators := dict_set m it' (model_iterators sel)\<rparr>))
                  | None \<Rightarrow> Inl KeyError)
             | _ \<Rightarrow> Inl KeyError)
          else
            bind_exn (cycle_next (global_iterator sel)) (\<lambda>(ep, it').
              Inr (ep, sel\<lparr>global_iterator := it'\<rparr>)))"

text \<open>
  Consecutive selection calls on the one module-level selector, one per model argument;
  a call that raises gives no endpoint and the next call goes on from the same state.
\<close>

fun run_calls :: "rr_selector \<Rightarrow> json list \<Rightarrow> (exn + string) list \<times> rr_selector" where
  "run_calls sel [] = ([], sel)"
| "run_calls sel (m # ms) =
     (case get_next_endpoint sel m of
        Inl e \<Rightarrow> (case run_calls sel ms of (outs, sel') \<Rightarrow> (Inl e # outs, sel'))
      | Inr (ep, sel1) \<Rightarrow> (case run_calls sel1 ms of (outs, sel') \<Rightarrow> (Inr ep # outs, sel')))"

text \<open>The answers, in order, to the calls whose argument is \<open>m\<close>.\<close>

definition answers_for :: "json \<Rightarrow> json list \<Rightarrow> (exn + string) list \<Rightarrow> (exn + string) list" where
  "answers_for m calls outs = map snd (filter (\<lambda>p. fst p = m) (zip calls outs))"

definition proxy_request_simple ::
    "rr_selector \<Rightarrow> backend \<Rightarrow> request \<Rightarrow> (proxy_result \<times> string list) \<times> rr_selector" where
  "proxy_request_simple sel post req =
     (case bind_exn (req_json req) (\<lambda>body.
           bind_exn (body_get body ''model'' JNull) (\<lambda>model.
           bind_exn (get_next_endpoint sel model) (\<lambda>(ep, sel'). Inr (body, ep, sel')))) of
        Inl e \<Rightarrow> (except_500 (Inl e, []), sel)
      | Inr (body, ep, sel') \<Rightarrow> (except_500 (forward_request post req body ep), sel'))"

text \<open>The baseline's \<open>list_models\<close> reads none of its globals either.\<close>

definition list_models_simple :: "string list \<Rightarrow> rr_selector \<Rightarrow> json" where
  "list_models_simple eps sel =
     JObj [(''object'', JStr ''list''),
           (''data'', JArr [model_entry ''meta-llama/Llama-3.1-8B-Instruct'' 2,
                            model_entry ''Qwen/Qwen2.5-7B-Instruct'' 2,
                            model_entry ''meta-llama/Llama-3.3-70B-Instruct'' 2])]"

section \<open>Concrete configurations, for evaluating the model\<close>

definition six_backends :: "string list" where
  "six_backends = [''http://vllm-1:8000'', ''http://vllm-2:8000'', ''http://vllm-3:8000'',
                   ''http://vllm-4:8000'', ''http://vllm-5:8000'', ''http://vllm-6:8000'']"

definition two_backends :: "string list" where
  "two_backends = [''http://vllm-1:8000'', ''http://vllm-2:8000'']"

definition six_registry :: "(string \<times> string list) list" where
  "six_registry =
     [(''meta-llama/Llama-3.1-8B-Instruct'', [''http://vllm-1:8000'', ''http://vllm-2:8000'']),
      (''Qwen/Qwen2.5-7B-Instruct'', [''http://vllm-3:8000'', ''http://vllm-4:8000'']),
      (''meta-llama/Llama-3.3-70B-Instruct'', [''http://vllm-5:8000'', ''http://vllm-6:8000''])]"

definition sample :: "string \<Rightarrow> qdepth \<Rightarrow> string \<times> load_sample" where
  "sample ep d = (ep, \<lparr>endpoint = ep, queue_depth = d, timestamp = 0, healthy = True\<rparr>)"

text \<open>Backends 1 to 4 scraped, with queue depths 5, 2, 0 and 0; backends 5 and 6 not yet.\<close>

definition busy_cache :: cache where
  "busy_cache = [sample ''http://vllm-1:8000'' (Fin 5), sample ''http://vllm-2:8000'' (Fin 2),
                 sample ''http://vllm-3:8000'' (Fin 0), sample ''http://vllm-4:8000'' (Fin 0)]"

definition six_selector :: rr_selector where
  "six_selector =
     \<lparr>rr_endpoints = six_backends,
      rr_model_endpoints = six_registry,
      model_iterators = map (\<lambda>(m, es). (m, cycle_of es)) six_registry,
      global_iterator = cycle_of six_backends\<rparr>"

definition refused :: exn where
  "refused = Exn ''ConnectError'' ''All connection attempts failed''"

definition bad_json :: exn where
  "bad_json = Exn ''JSONDecodeError'' ''Expecting value''"

definition chat_request :: "json \<Rightarrow> request" where
  "chat_request body =
     \<lparr>req_json = Inr body, url_path = ''/v1/chat/completions'', req_headers = []\<rparr>"

definition garbled_request :: request where
  "garbled_request =
     \<lparr>req_json = Inl bad_json, url_path = ''/v1/chat/completions'', req_headers = []\<rparr>"

definition down_backend :: backend where
  "down_backend url body hs = Inl refused"

definition garbling_backend :: backend where
  "garbling_backend url body hs =
     Inr \<lparr>status_code = 200, content_type = Some ''text/plain'',
          json_body = Inl bad_json, body_chunks = [''oops'']\<rparr>"

definition waiting_3 :: http_outcome where
  "waiting_3 = Response 200 (codes ''vllm:num_requests_waiting{model_name=m} 3.0'')"

definition obs_first_down :: observations where
  "obs_first_down i = (if i = 0 then (12, Raised refused) else (12, waiting_3))"

definition obs_all_up :: observations where
  "obs_all_up i = (12, waiting_3)"

section \<open>Facts about the registry and the scan\<close>

lemma model_endpoints_short:
  "length eps < 6 \<Longrightarrow> model_endpoints eps = Inl IndexError"
  by (auto simp: model_endpoints_def bind_exn_def py_index_def)

lemma model_endpoints_six:
  "6 \<le> length eps \<Longrightarrow>
   model_endpoints eps =
     Inr [(''meta-llama/Llama-3.1-8B-Instruct'', [eps ! 0, eps ! 1]),
          (''Qwen/Qwen2.5-7B-Instruct'', [eps ! 2, eps ! 3]),
          (''meta-llama/Llama-3.3-70B-Instruct'', [eps ! 4, eps ! 5])]"
  by (auto simp: model_endpoints_def bind_exn_def py_index_def)

lemma qd_le_not_less: "qd_le a b \<Longrightarrow> \<not> qd_less b a"
  by (cases a; cases b) auto

lemma not_less_PInf_self: "\<not> qd_less PInf b"
  by (cases b) auto

lemma least_busy_keep:
  "\<forall>x \<in> set cs. \<not> qd_less (depth_of c x) mn \<Longrightarrow> least_busy c cs (mn, best) = (mn, best)"
  by (induction cs) auto

lemma least_busy_first_min:
  "i < length cs \<Longrightarrow>
   qd_less (depth_of c (cs ! i)) mn \<Longrightarrow>
   \<forall>j < length cs. qd_le (depth_of c (cs ! i)) (depth_of c (cs ! j)) \<Longrightarrow>
   \<forall>j < i. qd_less (depth_of c (cs ! i)) (depth_of c (cs ! j)) \<Longrightarrow>
   least_busy c cs (mn, best) = (depth_of c (cs ! i), cs ! i)"
proof (induction cs arbitrary: i mn best)
  case Nil
  then show ?case by simp
next
  case (Cons x xs)
  show ?case
  proof (cases i)
    case 0
    have "\<forall>y \<in> set xs. \<not> qd_less (depth_of c y) (depth_of c x)"
    proof
      fix y assume "y \<in> set xs"
      then obtain k where k: "k < length xs" "xs ! k = y"
        by (auto simp: in_set_conv_nth)
      from Cons.prems(3) 0 k have "qd_le (depth_of c x) (depth_of c y)"
        by (auto dest: spec [where x = "Suc k"])
      then show "\<not> qd_less (depth_of c y) (depth_of c x)"
        by (rule qd_le_not_less)
    qed
    then have "least_busy c xs (depth_of c x, x) = (depth_of c x, x)"
      by (rule least_busy_keep)
    with Cons.prems(2) 0 show ?thesis by simp
  next
    case (Suc k)
    let ?d = "depth_of c (xs ! k)"
    have k: "k < length xs" using Cons.prems(1) Suc by simp
    have le: "\<forall>j < length xs. qd_le ?d (depth_of c (xs ! j))"
    proof (intro allI impI)
      fix j assume "j < length xs"
      with Cons.prems(3) Suc show "qd_le ?d (depth_of c (xs ! j))"
        by (auto dest: spec [where x = "Suc j"])
    qed
    have lt: "\<forall>j < k. qd_less ?d (depth_of c (xs ! j))"
    proof (intro allI impI)
      fix j assume "j < k"
      with Cons.prems(4) Suc show "qd_less ?d (depth_of c (xs ! j))"
        by (auto dest: spec [where x = "Suc j"])
    qed
    have x: "qd_less ?d (depth_of c x)"
      using Cons.prems(4) Suc by (auto dest: spec [where x = 0])
    have mn: "qd_less ?d mn" using Cons.prems(2) Suc by simp
    show ?thesis
    proof (cases "qd_less (depth_of c x) mn")
      case True
      with Cons.IH [OF k x le lt] Suc show ?thesis by simp
    next
      case False
      with Cons.IH [OF k mn le lt] Suc show ?thesis by simp
    qed
  qed
qed

lemma registry_cases:
  assumes "model_endpoints eps = Inr reg"
  shows "6 \<le> length eps \<and>
     reg = [(''meta-llama/Llama-3.1-8B-Instruct'', [eps ! 0, eps ! 1]),
          (''Qwen/Qwen2.5-7B-Instruct'', [eps ! 2, eps ! 3]),
          (''meta-llama/Llama-3.3-70B-Instruct'', [eps ! 4, eps ! 5])]"
proof (cases "length eps < 6")
  case True
  with assms show ?thesis by (simp add: model_endpoints_short)
next
  case False
  then have "6 \<le> length eps" by simp
  with assms model_endpoints_six [of eps] show ?thesis by simp
qed

lemma registered_replicas:
  assumes "model_endpoints eps = Inr reg" "map_of reg M = Some reps"
  shows "M \<noteq> [] \<and> length reps = 2 \<and> set reps \<subseteq> set eps"
proof -
  from registry_cases [OF assms(1)] have l: "6 \<le> length eps" and
    r: "reg = [(''meta-llama/Llama-3.1-8B-Instruct'', [eps ! 0, eps ! 1]),
          (''Qwen/Qwen2.5-7B-Instruct'', [eps ! 2, eps ! 3]),
          (''meta-llama/Llama-3.3-70B-Instruct'', [eps ! 4, eps ! 5])]" by simp_all
  from l have "\<forall>i<6. eps ! i \<in> set eps" by (auto intro: nth_mem)
  then have "eps ! 0 \<in> set eps" "eps ! 1 \<in> set eps" "eps ! 2 \<in> set eps"
    "eps ! 3 \<in> set eps" "eps ! 4 \<in> set eps" "eps ! 5 \<in> set eps" by simp_all
  with assms(2) show ?thesis unfolding r
    by (auto split: if_splits)
qed

lemma get_best_registered:
  assumes "model_endpoints eps = Inr reg" "map_of reg M = Some reps"
  shows "get_best_endpoint eps c (JStr M) = Inr (snd (least_busy c reps (PInf, reps ! 0)))"
proof -
  from registered_replicas [OF assms] have "M \<noteq> []" "0 < length reps" by simp_all
  with assms show ?thesis
    by (simp add: get_best_endpoint_def bind_exn_def dict_get_def py_index_def)
qed

lemma get_best_unregistered:
  assumes "model_endpoints eps = Inr reg" "map_of reg m = None" "m \<noteq> []"
  shows "get_best_endpoint eps c (JStr m) = Inr (snd (least_busy c (take 2 eps) (PInf, eps ! 0)))"
proof -
  from registry_cases [OF assms(1)] have "6 \<le> length eps" by simp
  then have "eps \<noteq> []" by auto
  with assms show ?thesis
    by (simp add: get_best_endpoint_def bind_exn_def dict_get_def py_index_def)
qed

lemma get_best_falsy:
  assumes "\<not> truthy model" "eps \<noteq> []"
  shows "get_best_endpoint eps c model = Inr (snd (least_busy c eps (PInf, eps ! 0)))"
  using assms by (simp add: get_best_endpoint_def bind_exn_def py_index_def)

lemma least_busy_member:
  "snd (least_busy c cs (mn, best)) \<in> insert best (set cs)"
  by (induction cs arbitrary: mn best) auto

lemma get_best_candidates:
  assumes "6 \<le> length eps" "hashable model" "truthy model"
  shows "\<exists>cands. cands \<noteq> [] \<and> set cands \<subseteq> set eps \<and>
           get_best_endpoint eps c model = Inr (snd (least_busy c cands (PInf, cands ! 0)))"
proof -
  obtain reg where reg: "model_endpoints eps = Inr reg"
    using model_endpoints_six [OF assms(1)] by simp
  have ne: "eps \<noteq> []" using assms(1) by auto
  have take2: "take 2 eps \<noteq> []" "set (take 2 eps) \<subseteq> set eps" "take 2 eps ! 0 = eps ! 0"
    using ne by (auto dest: in_set_takeD)
  show ?thesis
  proof (cases "\<exists>M reps. model = JStr M \<and> map_of reg M = Some reps")
    case True
    then obtain M reps where m: "model = JStr M" "map_of reg M = Some reps" by blast
    from registered_replicas [OF reg m(2)] have "reps \<noteq> []" "set reps \<subseteq> set eps" by auto
    with get_best_registered [OF reg m(2), of c] m(1) show ?thesis by blast
  next
    case False
    then have "dict_get reg model (take 2 eps) = Inr (take 2 eps)"
      using assms(2) by (cases model) (auto simp: dict_get_def split: option.splits)
    with reg assms(3) take2(1) have
      "get_best_endpoint eps c model =
         Inr (snd (least_busy c (take 2 eps) (PInf, take 2 eps ! 0)))"
      by (simp add: get_best_endpoint_def bind_exn_def py_index_def)
    with take2 show ?thesis by blast
  qed
qed

lemma scan_result_in_candidates:
  assumes "cands \<noteq> []"
  shows "snd (least_busy c cands (PInf, cands ! 0)) \<in> set cands"
proof -
  have "cands ! 0 \<in> set cands" using assms by simp
  with least_busy_member [of c cands PInf "cands ! 0"] show ?thesis by auto
qed

lemma qd_less_PInf: "qd_less a b \<Longrightarrow> qd_less a PInf"
  by (cases a; cases b) auto

lemma qd_less_le: "qd_less a b \<Longrightarrow> qd_le a b"
  by (cases a; cases b) auto

lemma qd_less_refl_le: "qd_less a b \<Longrightarrow> qd_le a a"
  by (cases a; cases b) auto

lemma qd_le_neq_less: "qd_le a b \<Longrightarrow> a \<noteq> b \<Longrightarrow> qd_less a b"
  by (cases a; cases b) auto

lemma qd_le_PInf: "qd_le PInf b \<Longrightarrow> b = PInf"
  by (cases b) auto

lemma qd_le_self_cases: "qd_le a a \<Longrightarrow> qd_less a PInf \<or> a = PInf"
  by (cases a) auto

lemma scan_first_min:
  assumes i: "i < length cs"
    and le: "\<forall>j < length cs. qd_le (depth_of c (cs ! i)) (depth_of c (cs ! j))"
    and first: "\<forall>j < i. depth_of c (cs ! j) \<noteq> depth_of c (cs ! i)"
  shows "snd (least_busy c cs (PInf, cs ! 0)) = cs ! i"
proof -
  let ?d = "depth_of c (cs ! i)"
  from le i have "qd_le ?d ?d" by blast
  then consider "qd_less ?d PInf" | "?d = PInf" using qd_le_self_cases by blast
  then show ?thesis
  proof cases
    case 1
    have "\<forall>j < i. qd_less ?d (depth_of c (cs ! j))"
    proof (intro allI impI)
      fix j assume j: "j < i"
      with i le have "qd_le ?d (depth_of c (cs ! j))" by simp
      moreover from first j have "?d \<noteq> depth_of c (cs ! j)" by metis
      ultimately show "qd_less ?d (depth_of c (cs ! j))" by (rule qd_le_neq_less)
    qed
    with least_busy_first_min [OF i 1 le, of "cs ! 0"] show ?thesis by simp
  next
    case 2
    have all: "\<forall>j < length cs. depth_of c (cs ! j) = PInf"
      using le 2 by (auto dest: qd_le_PInf)
    have "i = 0"
    proof (rule ccontr)
      assume "i \<noteq> 0"
      then have "0 < i" by simp
      with first have "depth_of c (cs ! 0) \<noteq> ?d" by blast
      moreover have "0 < length cs" using i by (cases cs) auto
      with all have "depth_of c (cs ! 0) = PInf" by blast
      ultimately show False using 2 by simp
    qed
    have "\<forall>x \<in> set cs. \<not> qd_less (depth_of c x) PInf"
      using all by (auto simp: in_set_conv_nth)
    then have "least_busy c cs (PInf, cs ! 0) = (PInf, cs ! 0)" by (rule least_busy_keep)
    with \<open>i = 0\<close> show ?thesis by simp
  qed
qed

lemma scan_strict_min:
  assumes i: "i < length cs"
    and lt: "\<forall>j < length cs. j \<noteq> i \<longrightarrow> qd_less (depth_of c (cs ! i)) (depth_of c (cs ! j))"
  shows "snd (least_busy c cs (PInf, cs ! 0)) = cs ! i"
proof (cases "\<exists>j < length cs. j \<noteq> i")
  case True
  then obtain k where k: "k < length cs" "k \<noteq> i" by blast
  with lt have dk: "qd_less (depth_of c (cs ! i)) (depth_of c (cs ! k))" by blast
  have le: "\<forall>j < length cs. qd_le (depth_of c (cs ! i)) (depth_of c (cs ! j))"
  proof (intro allI impI)
    fix j assume j: "j < length cs"
    show "qd_le (depth_of c (cs ! i)) (depth_of c (cs ! j))"
    proof (cases "j = i")
      case True
      with dk show ?thesis by (simp add: qd_less_refl_le [OF dk])
    next
      case False
      with lt j show ?thesis by (simp add: qd_less_le)
    qed
  qed
  have first: "\<forall>j < i. depth_of c (cs ! j) \<noteq> depth_of c (cs ! i)"
  proof (intro allI impI)
    fix j assume j: "j < i"
    with i lt have "qd_less (depth_of c (cs ! i)) (depth_of c (cs ! j))" by simp
    then show "depth_of c (cs ! j) \<noteq> depth_of c (cs ! i)"
      using qd_le_not_less qd_less_le by metis
  qed
  from scan_first_min [OF i le first] show ?thesis .
next
  case False
  with i have "i = 0" by (metis gr_implies_not0 not_gr_zero)
  moreover from False i have "length cs = 1"
    by (metis One_nat_def Suc_lessI calculation less_Suc0 not_gr_zero)
  then obtain x where "cs = [x]" by (cases cs) auto
  ultimately show ?thesis by simp
qed

section \<open>Facts about the telemetry poller\<close>

lemma scan_lines_all_rejected:
  "\<forall>line \<in> set ls. metric_line line \<longrightarrow>
      (\<forall>tok. py_last (split_ws line) = Inr tok \<longrightarrow> pf tok = None) \<Longrightarrow>
   scan_lines pf ls qd = qd"
proof (induction ls arbitrary: qd)
  case Nil
  then show ?case by simp
next
  case (Cons l ls)
  have "metric_line l \<Longrightarrow> \<exists>e. parse_depth pf l = Inl e"
    using Cons.prems
    by (cases "py_last (split_ws l)") (auto simp: parse_depth_def bind_exn_def)
  with Cons show ?case by (auto split: sum.splits)
qed

text \<open>
  \<open>str.split()\<close> splits at the no-break space U+00A0 and at the em space U+2003 as it
  does at a blank: the depth after the key is read.
\<close>

lemma fetch_splits_at_unicode_space:
  "split_ws (codes ''vllm:num_requests_waiting'' @ [0xA0] @ codes ''3'') =
     [codes ''vllm:num_requests_waiting'', codes ''3''] \<and>
   queue_depth (fetch_endpoint_metrics decimal_float ''http://vllm-1:8000'' 12
      (Response 200 (codes ''vllm:num_requests_waiting'' @ [0xA0] @ codes ''3''))) = Fin 3 \<and>
   queue_depth (fetch_endpoint_metrics decimal_float ''http://vllm-1:8000'' 12
      (Response 200 (codes ''vllm:num_requests_waiting'' @ [0x2003] @ codes ''3''))) = Fin 3"
  by (simp add: fetch_endpoint_metrics_def metric_line_def parse_depth_def bind_exn_def
        py_last_def split_ws_def is_space_def codes_def decimal_float_def nat_of_digits_def
        digit_of_def)

lemma map_of_dict_set: "map_of (dict_set k v d) = (map_of d)(k \<mapsto> v)"
  by (induction d) (auto simp: fun_eq_iff)

lemma endpoint_fetch: "endpoint (fetch_endpoint_metrics pf ep now out) = ep"
  by (cases out) (auto simp: fetch_endpoint_metrics_def unhealthy_def)

lemma gather_snoc:
  "gather_metrics pf (eps @ [e]) obs =
     gather_metrics pf eps obs @
       [fetch_endpoint_metrics pf e (fst (obs (length eps))) (snd (obs (length eps)))]"
  by (simp add: gather_metrics_def nth_append)

lemma poll_tick_snoc:
  "poll_tick pf (eps @ [e]) obs c =
     dict_set e (fetch_endpoint_metrics pf e (fst (obs (length eps))) (snd (obs (length eps))))
       (poll_tick pf eps obs c)"
  by (simp add: poll_tick_def store_results_def gather_snoc endpoint_fetch)

lemma poll_tick_nil: "poll_tick pf [] obs c = c"
  by (simp add: poll_tick_def store_results_def gather_metrics_def)

lemma poll_tick_own:
  "i < length eps \<Longrightarrow> \<forall>j. i < j \<and> j < length eps \<longrightarrow> eps ! j \<noteq> eps ! i \<Longrightarrow>
   map_of (poll_tick pf eps obs c) (eps ! i) =
     Some (fetch_endpoint_metrics pf (eps ! i) (fst (obs i)) (snd (obs i)))"
proof (induction eps rule: rev_induct)
  case Nil
  then show ?case by simp
next
  case (snoc e eps)
  show ?case
  proof (cases "i = length eps")
    case True
    then show ?thesis by (simp add: poll_tick_snoc map_of_dict_set)
  next
    case False
    with snoc.prems(1) have i: "i < length eps" by simp
    from snoc.prems(2) i have "(eps @ [e]) ! length eps \<noteq> (eps @ [e]) ! i"
      by (metis length_append_singleton lessI)
    with i have ne: "e \<noteq> eps ! i" by (simp add: nth_append)
    have "\<forall>j. i < j \<and> j < length eps \<longrightarrow> eps ! j \<noteq> eps ! i"
    proof (intro allI impI)
      fix j assume j: "i < j \<and> j < length eps"
      with snoc.prems(2) have "(eps @ [e]) ! j \<noteq> (eps @ [e]) ! i" by simp
      with j i show "eps ! j \<noteq> eps ! i" by (simp add: nth_append)
    qed
    from snoc.IH [OF i this] ne i show ?thesis
      by (simp add: poll_tick_snoc map_of_dict_set nth_append)
  qed
qed

lemma poll_tick_untouched:
  "b \<notin> set eps \<Longrightarrow> map_of (poll_tick pf eps obs c) b = map_of c b"
  by (induction eps rule: rev_induct) (auto simp: poll_tick_nil poll_tick_snoc map_of_dict_set)

lemma poll_tick_frame:
  "b' \<noteq> b \<Longrightarrow> \<forall>i < length eps. eps ! i \<noteq> b \<longrightarrow> obs' i = obs i \<Longrightarrow>
   map_of (poll_tick pf eps obs' c) b' = map_of (poll_tick pf eps obs c) b'"
proof (induction eps rule: rev_induct)
  case Nil
  then show ?case by (simp add: poll_tick_nil)
next
  case (snoc e eps)
  have "\<forall>i < length eps. eps ! i \<noteq> b \<longrightarrow> obs' i = obs i"
  proof (intro allI impI)
    fix i assume "i < length eps" "eps ! i \<noteq> b"
    with snoc.prems(2) show "obs' i = obs i"
      by (auto dest!: spec [where x = i] simp: nth_append)
  qed
  with snoc.IH snoc.prems(1)
  have ih: "map_of (poll_tick pf eps obs' c) b' = map_of (poll_tick pf eps obs c) b'" by simp
  show ?case
  proof (cases "e = b")
    case True
    with snoc.prems(1) ih show ?thesis by (simp add: poll_tick_snoc map_of_dict_set)
  next
    case False
    with snoc.prems(2) have "obs' (length eps) = obs (length eps)"
      by (auto dest!: spec [where x = "length eps"])
    with ih show ?thesis by (simp add: poll_tick_snoc map_of_dict_set)
  qed
qed

lemma poller_ticks: "fst (metrics_poller n pf eps world (t, c)) = t + n"
  by (induction n arbitrary: t c) auto

section \<open>Facts about the round-robin selector and the proxy\<close>

lemma get_next_registered:
  assumes "M \<noteq> []" "map_of (model_iterators s) M = Some it" "cycle_items it \<noteq> []"
  shows "get_next_endpoint s (JStr M) =
     Inr (cycle_items it ! cycle_pos it,
          s\<lparr>model_iterators :=
              dict_set M (it\<lparr>cycle_pos := (cycle_pos it + 1) mod length (cycle_items it)\<rparr>)
                (model_iterators s)\<rparr>)"
  using assms
  by (simp add: get_next_endpoint_def dict_contains_def bind_exn_def cycle_next_def)

lemma get_next_other:
  assumes "m \<noteq> JStr M" "get_next_endpoint s m = Inr (ep, s')"
  shows "map_of (model_iterators s') M = map_of (model_iterators s) M"
proof (cases "\<exists>k. m = JStr k")
  case True
  then obtain k where k: "m = JStr k" by blast
  with assms(1) have "k \<noteq> M" by simp
  with assms(2) k show ?thesis
    by (auto simp: get_next_endpoint_def dict_contains_def bind_exn_def cycle_next_def
          map_of_dict_set split: if_splits option.splits sum.splits)
next
  case False
  with assms(2) show ?thesis
    by (cases m)
       (auto simp: get_next_endpoint_def dict_contains_def bind_exn_def cycle_next_def
          split: if_splits option.splits sum.splits)
qed

lemma length_run_calls: "length (fst (run_calls s calls)) = length calls"
  by (induction calls arbitrary: s) (auto simp: case_prod_beta split: sum.splits)

lemma answers_from_cursor:
  assumes "M \<noteq> []" "reps \<noteq> []"
  shows "p < length reps \<Longrightarrow>
    map_of (model_iterators s) M = Some \<lparr>cycle_items = reps, cycle_pos = p\<rparr> \<Longrightarrow>
    answers_for (JStr M) calls (fst (run_calls s calls)) =
      map (\<lambda>j. Inr (reps ! ((p + j) mod length reps)))
        [0..<length (filter (\<lambda>m. m = JStr M) calls)]"
proof (induction calls arbitrary: s p)
  case Nil
  then show ?case by (simp add: answers_for_def)
next
  case (Cons m ms)
  show ?case
  proof (cases "m = JStr M")
    case True
let ?s1 = "s\<lparr>model_iterators :=
                  dict_set M \<lparr>cycle_items = reps, cycle_pos = Suc p mod length reps\<rparr>
                    (model_iterators s)\<rparr>"
    have step: "get_next_endpoint s (JStr M) = Inr (reps ! p, ?s1)"
      using get_next_registered [OF assms(1) Cons.prems(2)] assms(2) by simp
    have cur: "map_of (model_iterators ?s1) M =
        Some \<lparr>cycle_items = reps, cycle_pos = Suc p mod length reps\<rparr>"
      by (simp add: map_of_dict_set)
    have lt: "Suc p mod length reps < length reps" using assms(2) by simp
    have shift: "\<And>j. (Suc p mod length reps + j) mod length reps = (p + Suc j) mod length reps"
      by (simp add: mod_add_left_eq)
    have ih: "answers_for (JStr M) ms (fst (run_calls ?s1 ms)) =
      map (\<lambda>j. Inr (reps ! ((p + Suc j) mod length reps)))
        [0..<length (filter (\<lambda>m. m = JStr M) ms)]"
      using Cons.IH [OF lt cur] by (simp only: shift)
    have "answers_for (JStr M) (m # ms) (fst (run_calls s (m # ms))) =
        Inr (reps ! p) # answers_for (JStr M) ms (fst (run_calls ?s1 ms))"
      using True step by (simp add: answers_for_def case_prod_beta)
    also have "\<dots> = Inr (reps ! p) #
        map (\<lambda>j. Inr (reps ! ((p + Suc j) mod length reps)))
          [0..<length (filter (\<lambda>m. m = JStr M) ms)]"
      by (simp only: ih)
    also have "\<dots> = map (\<lambda>j. Inr (reps ! ((p + j) mod length reps)))
          [0..<length (filter (\<lambda>m. m = JStr M) (m # ms))]"
      using True Cons.prems(1) by (simp add: map_upt_Suc del: upt_Suc)
    finally show ?thesis .
  next
    case False
    show ?thesis
    proof (cases "get_next_endpoint s m")
      case (Inl e)
      with False Cons.IH [OF Cons.prems] show ?thesis
        by (simp add: answers_for_def case_prod_beta)
    next
      case (Inr r)
      obtain ep s1 where r: "r = (ep, s1)" by (cases r)
      from get_next_other [OF False] Inr r Cons.prems(2)
      have "map_of (model_iterators s1) M = Some \<lparr>cycle_items = reps, cycle_pos = p\<rparr>"
        by simp
      from Cons.IH [OF Cons.prems(1) this] False Inr r show ?thesis
        by (simp add: answers_for_def case_prod_beta)
    qed
  qed
qed

lemma selector_init:
  assumes "RoundRobinSelector eps = Inr sel" "map_of (rr_model_endpoints sel) M = Some reps"
  shows "M \<noteq> [] \<and> length reps = 2 \<and>
         map_of (model_iterators sel) M = Some \<lparr>cycle_items = reps, cycle_pos = 0\<rparr>"
proof -
  from assms(1) obtain reg where reg: "model_endpoints eps = Inr reg"
    and sel: "sel = \<lparr>rr_endpoints = eps, rr_model_endpoints = reg,
            model_iterators = map (\<lambda>(m, es). (m, cycle_of es)) reg,
            global_iterator = cycle_of eps\<rparr>"
    by (auto simp: RoundRobinSelector_def bind_exn_def split: sum.splits)
  from registry_cases [OF reg] have
    r: "reg = [(''meta-llama/Llama-3.1-8B-Instruct'', [eps ! 0, eps ! 1]),
          (''Qwen/Qwen2.5-7B-Instruct'', [eps ! 2, eps ! 3]),
          (''meta-llama/Llama-3.3-70B-Instruct'', [eps ! 4, eps ! 5])]" by simp
  from assms(2) show ?thesis unfolding sel r
    by (auto simp: cycle_of_def split: if_splits)
qed

lemma answers_for_replicate:
  "length outs = n \<Longrightarrow> answers_for m (replicate n m) outs = outs"
  by (simp add: answers_for_def zip_replicate1 comp_def)

lemma cursor_after_calls:
  assumes "M \<noteq> []" "reps \<noteq> []"
  shows "p < length reps \<Longrightarrow>
    map_of (model_iterators s) M = Some \<lparr>cycle_items = reps, cycle_pos = p\<rparr> \<Longrightarrow>
    map_of (model_iterators (snd (run_calls s calls))) M =
      Some \<lparr>cycle_items = reps,
            cycle_pos = (p + length (filter (\<lambda>m. m = JStr M) calls)) mod length reps\<rparr>"
proof (induction calls arbitrary: s p)
  case Nil
  then show ?case by simp
next
  case (Cons m ms)
  show ?case
  proof (cases "m = JStr M")
    case True
    let ?s1 = "s\<lparr>model_iterators :=
                  dict_set M \<lparr>cycle_items = reps, cycle_pos = Suc p mod length reps\<rparr>
                    (model_iterators s)\<rparr>"
    have step: "get_next_endpoint s (JStr M) = Inr (reps ! p, ?s1)"
      using get_next_registered [OF assms(1) Cons.prems(2)] assms(2) by simp
    have cur: "map_of (model_iterators ?s1) M =
        Some \<lparr>cycle_items = reps, cycle_pos = Suc p mod length reps\<rparr>"
      by (simp add: map_of_dict_set)
    have lt: "Suc p mod length reps < length reps" using assms(2) by simp
    have shift: "\<And>j. (Suc p mod length reps + j) mod length reps = (p + Suc j) mod length reps"
      by (simp add: mod_add_left_eq)
    from Cons.IH [OF lt cur] True step show ?thesis
      by (simp add: case_prod_beta shift)
  next
    case False
    show ?thesis
    proof (cases "get_next_endpoint s m")
      case (Inl e)
      with False Cons.IH [OF Cons.prems] show ?thesis
        by (simp add: case_prod_beta)
    next
      case (Inr r)
      obtain ep s1 where r: "r = (ep, s1)" by (cases r)
      from get_next_other [OF False] Inr r Cons.prems(2)
      have "map_of (model_iterators s1) M = Some \<lparr>cycle_items = reps, cycle_pos = p\<rparr>"
        by simp
      from Cons.IH [OF Cons.prems(1) this] False Inr r show ?thesis
        by (simp add: case_prod_beta)
    qed
  qed
qed

lemma forward_log: "snd (forward_request post req body ep) = [ep @ url_path req]"
  by (simp add: forward_request_def Let_def)

lemma except_500_log: "snd (except_500 r) = snd r"
  by (cases "fst r") (auto simp: except_500_def)

lemma smart_posts_once: "length (snd (proxy_request_smart eps c post req)) \<le> 1"
  by (auto simp: proxy_request_smart_def except_500_log forward_log split: sum.splits)

lemma simple_posts_once: "length (snd (fst (proxy_request_simple sel post req))) \<le> 1"
  by (auto simp: proxy_request_simple_def except_500_log forward_log split: sum.splits)

section \<open>The adaptive selector: claims C2 to C5\<close>

lemma six_registry_eq: "model_endpoints six_backends = Inr six_registry"
  by (simp add: model_endpoints_def bind_exn_def py_index_def six_backends_def six_registry_def)

text \<open>
  C2 (as the code has it). With the registry built (six or more backends), a non-empty
  model name that is not a key of the registry is served from the first two entries of
  the backend list: the selector returns the result of the minimum scan over
  \<open>endpoints[:2]\<close>. For the empty name, which is not a key of the registry either, the
  selector returns the result of the minimum scan over the full backend list.
\<close>

theorem unregistered_model_scans_first_two:
  assumes "model_endpoints eps = Inr reg" and "map_of reg m = None"
  shows "(m \<noteq> [] \<longrightarrow>
            get_best_endpoint eps c (JStr m) =
              Inr (snd (least_busy c (take 2 eps) (PInf, eps ! 0)))) \<and>
         (m = [] \<longrightarrow>
            get_best_endpoint eps c (JStr m) = Inr (snd (least_busy c eps (PInf, eps ! 0))))"
proof (intro conjI impI)
  assume "m \<noteq> []"
  with assms show "get_best_endpoint eps c (JStr m) =
      Inr (snd (least_busy c (take 2 eps) (PInf, eps ! 0)))"
    by (rule get_best_unregistered)
next
  assume m: "m = []"
  from registry_cases [OF assms(1)] have "eps \<noteq> []" by auto
  with m show "get_best_endpoint eps c (JStr m) = Inr (snd (least_busy c eps (PInf, eps ! 0)))"
    by (simp add: get_best_falsy)
qed

theorem unregistered_model_scans_first_two_witness:
  "model_endpoints six_backends = Inr six_registry \<and>
   map_of six_registry ''unknown-model'' = None \<and>
   map_of six_registry '''' = None \<and>
   get_best_endpoint six_backends busy_cache (JStr ''unknown-model'') = Inr ''http://vllm-2:8000'' \<and>
   get_best_endpoint six_backends busy_cache (JStr '''') = Inr ''http://vllm-3:8000''"
proof -
  have r: "model_endpoints six_backends = Inr six_registry" by (rule six_registry_eq)
  have u: "map_of six_registry ''unknown-model'' = None" by (simp add: six_registry_def)
  have e: "map_of six_registry '''' = None" by (simp add: six_registry_def)
  have "get_best_endpoint six_backends busy_cache (JStr ''unknown-model'') =
          Inr (snd (least_busy busy_cache (take 2 six_backends) (PInf, six_backends ! 0)))"
    using unregistered_model_scans_first_two [OF r u, of busy_cache] by simp
  then have a: "get_best_endpoint six_backends busy_cache (JStr ''unknown-model'') =
      Inr ''http://vllm-2:8000''"
    by (simp add: six_backends_def busy_cache_def sample_def depth_of_def)
  have "get_best_endpoint six_backends busy_cache (JStr '''') =
          Inr (snd (least_busy busy_cache six_backends (PInf, six_backends ! 0)))"
    using unregistered_model_scans_first_two [OF r e, of busy_cache] by simp
  then have b: "get_best_endpoint six_backends busy_cache (JStr '''') = Inr ''http://vllm-3:8000''"
    by (simp add: six_backends_def busy_cache_def sample_def depth_of_def)
  from r u e a b show ?thesis by simp
qed

text \<open>
  C2 as stated fails: for the unregistered name \<open>unknown-model\<close> the selector answers
  backend 2, the less loaded of the first two, while the minimum scan over all six
  backends gives backend 3, which is idle.
\<close>

theorem unregistered_model_full_scan_counterexample:
  "get_best_endpoint six_backends busy_cache (JStr ''unknown-model'') = Inr ''http://vllm-2:8000'' \<and>
   map_of six_registry ''unknown-model'' = None \<and>
   snd (least_busy busy_cache six_backends (PInf, six_backends ! 0)) = ''http://vllm-3:8000'' \<and>
   get_best_endpoint six_backends busy_cache (JStr ''unknown-model'') \<noteq>
     Inr (snd (least_busy busy_cache six_backends (PInf, six_backends ! 0)))"
  by (simp add: get_best_endpoint_def bind_exn_def py_index_def dict_get_def model_endpoints_def
        six_backends_def six_registry_def busy_cache_def sample_def depth_of_def)

text \<open>
  C3 (as the code has it). With six or more configured backends the selector returns one
  address of the backend list for every hashable model value, so for every model name,
  registered or not, and for an absent model; and for an absent or empty model it does so
  whenever the backend list is non-empty. No cache state makes these calls raise.
\<close>

theorem selector_total_on_six_backends:
  "(6 \<le> length eps \<and> hashable model \<longrightarrow>
      (\<exists>e \<in> set eps. get_best_endpoint eps c model = Inr e)) \<and>
   (eps \<noteq> [] \<and> \<not> truthy model \<longrightarrow>
      (\<exists>e \<in> set eps. get_best_endpoint eps c model = Inr e))"
proof (intro conjI impI)
  assume a: "eps \<noteq> [] \<and> \<not> truthy model"
  then have "get_best_endpoint eps c model = Inr (snd (least_busy c eps (PInf, eps ! 0)))"
    by (simp add: get_best_falsy)
  moreover have "snd (least_busy c eps (PInf, eps ! 0)) \<in> set eps"
    using a by (simp add: scan_result_in_candidates)
  ultimately show "\<exists>e \<in> set eps. get_best_endpoint eps c model = Inr e" by blast
next
  assume a: "6 \<le> length eps \<and> hashable model"
  then have ne: "eps \<noteq> []" by auto
  show "\<exists>e \<in> set eps. get_best_endpoint eps c model = Inr e"
  proof (cases "truthy model")
    case True
    with a get_best_candidates [of eps model c] obtain cands where
      cs: "cands \<noteq> []" "set cands \<subseteq> set eps"
        "get_best_endpoint eps c model = Inr (snd (least_busy c cands (PInf, cands ! 0)))"
      by blast
    from scan_result_in_candidates [OF cs(1), of c] cs(2)
    have "snd (least_busy c cands (PInf, cands ! 0)) \<in> set eps" by blast
    with cs(3) show ?thesis by blast
  next
    case False
    with ne have "get_best_endpoint eps c model = Inr (snd (least_busy c eps (PInf, eps ! 0)))"
      by (simp add: get_best_falsy)
    moreover have "snd (least_busy c eps (PInf, eps ! 0)) \<in> set eps"
      using ne by (simp add: scan_result_in_candidates)
    ultimately show ?thesis by blast
  qed
qed

theorem selector_total_on_six_backends_witness:
  "6 \<le> length six_backends \<and> hashable (JStr ''Qwen/Qwen2.5-7B-Instruct'') \<and>
   (\<exists>e \<in> set six_backends.
      get_best_endpoint six_backends busy_cache (JStr ''Qwen/Qwen2.5-7B-Instruct'') = Inr e) \<and>
   two_backends \<noteq> [] \<and> \<not> truthy JNull \<and>
   (\<exists>e \<in> set two_backends. get_best_endpoint two_backends busy_cache JNull = Inr e)"
proof -
  have h1: "6 \<le> length six_backends \<and> hashable (JStr ''Qwen/Qwen2.5-7B-Instruct'')"
    by (simp add: six_backends_def)
  have h2: "two_backends \<noteq> [] \<and> \<not> truthy JNull"
    by (simp add: two_backends_def)
  from selector_total_on_six_backends
         [of six_backends "JStr ''Qwen/Qwen2.5-7B-Instruct''" busy_cache] h1
  have a: "\<exists>e \<in> set six_backends.
      get_best_endpoint six_backends busy_cache (JStr ''Qwen/Qwen2.5-7B-Instruct'') = Inr e"
    by blast
  from selector_total_on_six_backends [of two_backends JNull busy_cache] h2
  have b: "\<exists>e \<in> set two_backends. get_best_endpoint two_backends busy_cache JNull = Inr e"
    by blast
  from h1 h2 a b show ?thesis by blast
qed

text \<open>
  C3 as stated fails: with a single configured backend, a non-empty backend list, a call
  with a model name raises IndexError while the registry literal is built.
\<close>

theorem selector_nonempty_list_counterexample:
  "get_best_endpoint [''http://vllm-1:8000''] [] (JStr ''Qwen/Qwen2.5-7B-Instruct'') =
     Inl IndexError"
  by (simp add: get_best_endpoint_def bind_exn_def py_index_def model_endpoints_def)

text \<open>
  C4. Let \<open>reps\<close> be the replicas the registry has for model \<open>M\<close>. If the replica at
  position \<open>i\<close> has a queue depth strictly lower than every other replica's, the selector
  returns it. If it attains the minimum queue depth (no replica is lower) and no earlier
  replica has the same depth, the selector returns it: among replicas sharing the minimum
  the earliest in registry order wins. The selector reads the cache and keeps no state, so
  every call under the same cache gives this answer.
\<close>

theorem selector_returns_least_loaded_replica:
  assumes "model_endpoints eps = Inr reg" and "map_of reg M = Some reps" and "i < length reps"
  shows "((\<forall>j < length reps. j \<noteq> i \<longrightarrow>
             qd_less (depth_of c (reps ! i)) (depth_of c (reps ! j))) \<longrightarrow>
          get_best_endpoint eps c (JStr M) = Inr (reps ! i)) \<and>
         ((\<forall>j < length reps. qd_le (depth_of c (reps ! i)) (depth_of c (reps ! j))) \<and>
          (\<forall>j < i. depth_of c (reps ! j) \<noteq> depth_of c (reps ! i)) \<longrightarrow>
          get_best_endpoint eps c (JStr M) = Inr (reps ! i))"
  using assms
  by (simp add: get_best_registered scan_strict_min scan_first_min)

theorem selector_returns_least_loaded_replica_witness:
  "model_endpoints six_backends = Inr six_registry \<and>
   get_best_endpoint six_backends busy_cache (JStr ''meta-llama/Llama-3.1-8B-Instruct'') =
     Inr ''http://vllm-2:8000'' \<and>
   get_best_endpoint six_backends busy_cache (JStr ''Qwen/Qwen2.5-7B-Instruct'') =
     Inr ''http://vllm-3:8000''"
proof -
  let ?llama = "[''http://vllm-1:8000'', ''http://vllm-2:8000'']"
  let ?qwen = "[''http://vllm-3:8000'', ''http://vllm-4:8000'']"
  have r: "model_endpoints six_backends = Inr six_registry" by (rule six_registry_eq)
  have l: "map_of six_registry ''meta-llama/Llama-3.1-8B-Instruct'' = Some ?llama"
    by (simp add: six_registry_def)
  have q: "map_of six_registry ''Qwen/Qwen2.5-7B-Instruct'' = Some ?qwen"
    by (simp add: six_registry_def)
  have i1: "1 < length ?llama" by simp
  have i0: "0 < length ?qwen" by simp
  have strict: "\<forall>j < length ?llama. j \<noteq> 1 \<longrightarrow>
      qd_less (depth_of busy_cache (?llama ! 1)) (depth_of busy_cache (?llama ! j))"
    by (simp add: less_Suc_eq busy_cache_def sample_def depth_of_def)
  have tie: "(\<forall>j < length ?qwen.
        qd_le (depth_of busy_cache (?qwen ! 0)) (depth_of busy_cache (?qwen ! j))) \<and>
      (\<forall>j < 0. depth_of busy_cache (?qwen ! j) \<noteq> depth_of busy_cache (?qwen ! 0))"
    by (simp add: less_Suc_eq all_conj_distrib busy_cache_def sample_def depth_of_def)
  from selector_returns_least_loaded_replica [OF r l i1, of busy_cache] strict
  have a: "get_best_endpoint six_backends busy_cache (JStr ''meta-llama/Llama-3.1-8B-Instruct'') =
     Inr ''http://vllm-2:8000''" by simp
  from selector_returns_least_loaded_replica [OF r q i0, of busy_cache] tie
  have b: "get_best_endpoint six_backends busy_cache (JStr ''Qwen/Qwen2.5-7B-Instruct'') =
     Inr ''http://vllm-3:8000''" by simp
  from r a b show ?thesis by simp
qed

text \<open>
  C5. If every candidate of a call has queue depth \<open>+\<infinity>\<close> in the Load Cache, a backend
  with no cache entry counting as \<open>+\<infinity>\<close>, the selector returns the first candidate: the
  first registered replica of a registered model, the first backend for an unregistered
  name (whose candidates are the first two backends), and the first backend when the model
  is absent or empty. The answer is a function of the cache alone, so repeated calls under
  that cache return the same address.
\<close>

theorem selector_all_unknown_returns_first:
  "(model_endpoints eps = Inr reg \<and> map_of reg M = Some reps \<and>
      (\<forall>r \<in> set reps. depth_of c r = PInf) \<longrightarrow>
      get_best_endpoint eps c (JStr M) = Inr (reps ! 0)) \<and>
   (model_endpoints eps = Inr reg \<and> map_of reg M = None \<and> M \<noteq> [] \<and>
      (\<forall>r \<in> set (take 2 eps). depth_of c r = PInf) \<longrightarrow>
      get_best_endpoint eps c (JStr M) = Inr (eps ! 0)) \<and>
   (eps \<noteq> [] \<and> \<not> truthy model \<and> (\<forall>r \<in> set eps. depth_of c r = PInf) \<longrightarrow>
      get_best_endpoint eps c model = Inr (eps ! 0))"
  by (auto simp: get_best_registered get_best_unregistered get_best_falsy
        least_busy_keep not_less_PInf_self)

theorem selector_all_unknown_returns_first_witness:
  "get_best_endpoint six_backends [] (JStr ''meta-llama/Llama-3.3-70B-Instruct'') =
     Inr ''http://vllm-5:8000'' \<and>
   get_best_endpoint six_backends busy_cache (JStr ''meta-llama/Llama-3.3-70B-Instruct'') =
     Inr ''http://vllm-5:8000'' \<and>
   get_best_endpoint six_backends [] (JStr ''unknown-model'') = Inr ''http://vllm-1:8000'' \<and>
   get_best_endpoint six_backends [] JNull = Inr ''http://vllm-1:8000''"
proof -
  let ?big = "[''http://vllm-5:8000'', ''http://vllm-6:8000'']"
  have r: "model_endpoints six_backends = Inr six_registry" by (rule six_registry_eq)
  have l: "map_of six_registry ''meta-llama/Llama-3.3-70B-Instruct'' = Some ?big"
    by (simp add: six_registry_def)
  have u: "map_of six_registry ''unknown-model'' = None" by (simp add: six_registry_def)
  have e1: "\<forall>r \<in> set ?big. depth_of [] r = PInf" by (simp add: depth_of_def)
  have e2: "\<forall>r \<in> set ?big. depth_of busy_cache r = PInf"
    by (simp add: depth_of_def busy_cache_def sample_def)
  have e3: "\<forall>r \<in> set (take 2 six_backends). depth_of [] r = PInf" by (simp add: depth_of_def)
  have e4: "\<forall>r \<in> set six_backends. depth_of [] r = PInf" by (simp add: depth_of_def)
  from selector_all_unknown_returns_first
         [of six_backends six_registry "''meta-llama/Llama-3.3-70B-Instruct''" ?big "[]"]
       r l e1
  have a: "get_best_endpoint six_backends [] (JStr ''meta-llama/Llama-3.3-70B-Instruct'') =
     Inr ''http://vllm-5:8000''" by simp
  from selector_all_unknown_returns_first
         [of six_backends six_registry "''meta-llama/Llama-3.3-70B-Instruct''" ?big busy_cache]
       r l e2
  have b: "get_best_endpoint six_backends busy_cache (JStr ''meta-llama/Llama-3.3-70B-Instruct'') =
     Inr ''http://vllm-5:8000''" by simp
  from selector_all_unknown_returns_first
         [of six_backends six_registry "''unknown-model''" _ "[]"] r u e3
  have c: "get_best_endpoint six_backends [] (JStr ''unknown-model'') = Inr ''http://vllm-1:8000''"
    by (simp add: six_backends_def)
  from selector_all_unknown_returns_first [of six_backends _ _ _ "[]" JNull] e4
  have d: "get_best_endpoint six_backends [] JNull = Inr ''http://vllm-1:8000''"
    by (simp add: six_backends_def)
  from a b c d show ?thesis by simp
qed

section \<open>Telemetry, listing and health: claims C1, C7, C9 and C10\<close>

text \<open>
  C1 (as the code has it). A scrape that returns HTTP 200 always gives a cache entry with
  \<open>healthy = true\<close>. If the payload has no line with the queue-depth key (comment lines
  apart), or the trailing token of every such line is rejected by \<open>float\<close>, the entry has
  \<open>queue_depth = 0\<close>, the value the variable starts with. The entry with
  \<open>queue_depth = +\<infinity>\<close> and \<open>healthy = false\<close> is the one for a request that raised or
  returned another status.
\<close>

theorem scrape_200_without_metric_is_healthy_zero:
  "healthy (fetch_endpoint_metrics pf ep now (Response 200 payload)) \<and>
   ((\<forall>line \<in> set (split_on 0x0A payload). metric_line line \<longrightarrow>
        (\<forall>tok. py_last (split_ws line) = Inr tok \<longrightarrow> pf tok = None)) \<longrightarrow>
    fetch_endpoint_metrics pf ep now (Response 200 payload) =
      \<lparr>endpoint = ep, queue_depth = Fin 0, timestamp = now, healthy = True\<rparr>) \<and>
   fetch_endpoint_metrics pf ep now (Raised e) = unhealthy ep now \<and>
   (code \<noteq> 200 \<longrightarrow> fetch_endpoint_metrics pf ep now (Response code payload) = unhealthy ep now)"
  by (simp add: fetch_endpoint_metrics_def scan_lines_all_rejected)

theorem scrape_200_without_metric_is_healthy_zero_witness:
  "fetch_endpoint_metrics decimal_float ''http://vllm-1:8000'' 12
       (Response 200 (codes ''vllm:num_requests_waiting abc'')) =
     \<lparr>endpoint = ''http://vllm-1:8000'', queue_depth = Fin 0, timestamp = 12, healthy = True\<rparr> \<and>
   (503::nat) \<noteq> 200 \<and>
   fetch_endpoint_metrics decimal_float ''http://vllm-1:8000'' 12
       (Response 503 (codes ''vllm:num_requests_waiting 4'')) =
     \<lparr>endpoint = ''http://vllm-1:8000'', queue_depth = PInf, timestamp = 12, healthy = False\<rparr>"
proof -
  let ?p = "codes ''vllm:num_requests_waiting abc''"
  have rejected: "\<forall>line \<in> set (split_on 0x0A ?p). metric_line line \<longrightarrow>
        (\<forall>tok. py_last (split_ws line) = Inr tok \<longrightarrow> decimal_float tok = None)"
    by (simp add: py_last_def split_ws_def is_space_def codes_def decimal_float_def nat_of_digits_def
          digit_of_def)
  from scrape_200_without_metric_is_healthy_zero
         [where pf = decimal_float and ep = "''http://vllm-1:8000''" and now = "12"
            and payload = "?p"] rejected
  have a: "fetch_endpoint_metrics decimal_float ''http://vllm-1:8000'' 12 (Response 200 ?p) =
     \<lparr>endpoint = ''http://vllm-1:8000'', queue_depth = Fin 0, timestamp = 12, healthy = True\<rparr>"
    by blast
  have c: "(503::nat) \<noteq> 200" by simp
  from scrape_200_without_metric_is_healthy_zero
         [where pf = decimal_float and ep = "''http://vllm-1:8000''" and now = "12" and code = 503
            and payload = "codes ''vllm:num_requests_waiting 4''"] c
  have b: "fetch_endpoint_metrics decimal_float ''http://vllm-1:8000'' 12
       (Response 503 (codes ''vllm:num_requests_waiting 4'')) =
     \<lparr>endpoint = ''http://vllm-1:8000'', queue_depth = PInf, timestamp = 12, healthy = False\<rparr>"
    by (simp add: unhealthy_def)
  from a c b show ?thesis by blast
qed

text \<open>
  C1 as stated fails: a 200 payload without the queue-depth key, and a 200 payload whose
  metric line ends in the token \<open>abc\<close>, both give the entry with queue depth 0 and
  \<open>healthy = true\<close>, not the entry of a failed scrape.
\<close>

theorem scrape_malformed_counterexample:
  "fetch_endpoint_metrics decimal_float ''http://vllm-1:8000'' 12
       (Response 200 (codes ''# HELP python_gc_objects_collected_total'')) =
     \<lparr>endpoint = ''http://vllm-1:8000'', queue_depth = Fin 0, timestamp = 12, healthy = True\<rparr> \<and>
   fetch_endpoint_metrics decimal_float ''http://vllm-1:8000'' 12
       (Response 200 (codes ''vllm:num_requests_waiting abc'')) =
     \<lparr>endpoint = ''http://vllm-1:8000'', queue_depth = Fin 0, timestamp = 12, healthy = True\<rparr> \<and>
   fetch_endpoint_metrics decimal_float ''http://vllm-1:8000'' 12
       (Response 200 (codes ''vllm:num_requests_waiting abc'')) \<noteq>
     fetch_endpoint_metrics decimal_float ''http://vllm-1:8000'' 12 (Raised refused)"
  by (simp add: fetch_endpoint_metrics_def metric_line_def parse_depth_def bind_exn_def
        py_last_def split_ws_def is_space_def codes_def decimal_float_def nat_of_digits_def digit_of_def
        unhealthy_def)

text \<open>
  C7. Within one poll tick: (1) if two runs of the tick differ only in what the scrapes of
  backend \<open>b\<close> observe, every other backend \<open>b'\<close> has the same cache entry after both, so a
  failure of \<open>b\<close> changes no other entry; (2) the entry of a configured backend after the
  tick is the result of its own scrape (of its last one, should the address be configured
  twice); (3) an address that is not configured keeps its entry; (4) the loop run for \<open>n\<close>
  iterations completes \<open>n\<close> ticks whatever the scrapes observe: no scrape outcome ends it.
\<close>

theorem poll_tick_isolates_backends:
  "(b' \<noteq> b \<and> (\<forall>i < length eps. eps ! i \<noteq> b \<longrightarrow> obs' i = obs i) \<longrightarrow>
      map_of (poll_tick pf eps obs' c) b' = map_of (poll_tick pf eps obs c) b') \<and>
   (i < length eps \<and> (\<forall>j. i < j \<and> j < length eps \<longrightarrow> eps ! j \<noteq> eps ! i) \<longrightarrow>
      map_of (poll_tick pf eps obs c) (eps ! i) =
        Some (fetch_endpoint_metrics pf (eps ! i) (fst (obs i)) (snd (obs i)))) \<and>
   (b' \<notin> set eps \<longrightarrow> map_of (poll_tick pf eps obs c) b' = map_of c b') \<and>
   fst (metrics_poller n pf eps world (t, c)) = t + n"
  using poll_tick_frame [of b' b eps obs' obs pf c] poll_tick_own [of i eps pf obs c]
    poll_tick_untouched [of b' eps pf obs c] poller_ticks [of n pf eps world t c]
  by blast

theorem poll_tick_isolates_backends_witness:
  "map_of (poll_tick decimal_float two_backends obs_first_down busy_cache) ''http://vllm-2:8000'' =
     map_of (poll_tick decimal_float two_backends obs_all_up busy_cache) ''http://vllm-2:8000'' \<and>
   map_of (poll_tick decimal_float two_backends obs_first_down busy_cache) ''http://vllm-2:8000'' =
     Some \<lparr>endpoint = ''http://vllm-2:8000'', queue_depth = Fin 3, timestamp = 12,
           healthy = True\<rparr> \<and>
   map_of (poll_tick decimal_float two_backends obs_first_down busy_cache) ''http://vllm-3:8000'' =
     Some \<lparr>endpoint = ''http://vllm-3:8000'', queue_depth = Fin 0, timestamp = 0,
           healthy = True\<rparr> \<and>
   fst (metrics_poller 5 decimal_float two_backends (\<lambda>t. obs_first_down) (0, [])) = 5"
proof -
  have h1: "''http://vllm-2:8000'' \<noteq> ''http://vllm-1:8000'' \<and>
      (\<forall>i < length two_backends. two_backends ! i \<noteq> ''http://vllm-1:8000'' \<longrightarrow>
         obs_first_down i = obs_all_up i)"
    by (simp add: two_backends_def less_Suc_eq obs_first_down_def obs_all_up_def)
  have h2: "1 < length two_backends \<and>
      (\<forall>j. 1 < j \<and> j < length two_backends \<longrightarrow> two_backends ! j \<noteq> two_backends ! 1)"
    by (simp add: two_backends_def)
  have h3: "''http://vllm-3:8000'' \<notin> set two_backends"
    by (simp add: two_backends_def)
  from poll_tick_isolates_backends
         [where b' = "''http://vllm-2:8000''" and b = "''http://vllm-1:8000''"
            and eps = two_backends and obs' = obs_first_down and obs = obs_all_up
            and pf = decimal_float and c = busy_cache] h1
  have a: "map_of (poll_tick decimal_float two_backends obs_first_down busy_cache)
             ''http://vllm-2:8000'' =
           map_of (poll_tick decimal_float two_backends obs_all_up busy_cache)
             ''http://vllm-2:8000''"
    by blast
  from poll_tick_isolates_backends
         [where eps = two_backends and obs = obs_first_down and pf = decimal_float
            and c = busy_cache and i = 1] h2
  have "map_of (poll_tick decimal_float two_backends obs_first_down busy_cache)
          (two_backends ! 1) =
        Some (fetch_endpoint_metrics decimal_float (two_backends ! 1)
                (fst (obs_first_down 1)) (snd (obs_first_down 1)))"
    by blast
  then have b: "map_of (poll_tick decimal_float two_backends obs_first_down busy_cache)
        ''http://vllm-2:8000'' =
      Some \<lparr>endpoint = ''http://vllm-2:8000'', queue_depth = Fin 3, timestamp = 12,
            healthy = True\<rparr>"
    by (simp add: two_backends_def obs_first_down_def waiting_3_def fetch_endpoint_metrics_def
          metric_line_def parse_depth_def bind_exn_def py_last_def split_ws_def is_space_def codes_def
          decimal_float_def nat_of_digits_def digit_of_def)
  from poll_tick_isolates_backends
         [where b' = "''http://vllm-3:8000''" and eps = two_backends and obs = obs_first_down
            and pf = decimal_float and c = busy_cache] h3
  have "map_of (poll_tick decimal_float two_backends obs_first_down busy_cache)
          ''http://vllm-3:8000'' = map_of busy_cache ''http://vllm-3:8000''"
    by blast
  then have c: "map_of (poll_tick decimal_float two_backends obs_first_down busy_cache)
        ''http://vllm-3:8000'' =
      Some \<lparr>endpoint = ''http://vllm-3:8000'', queue_depth = Fin 0, timestamp = 0,
            healthy = True\<rparr>"
    by (simp add: busy_cache_def sample_def)
  from poll_tick_isolates_backends
         [where eps = two_backends and pf = decimal_float and c = "[]" and n = 5
            and world = "\<lambda>t. obs_first_down" and t = 0]
  have d: "fst (metrics_poller 5 decimal_float two_backends (\<lambda>t. obs_first_down) (0, [])) = 5"
    by simp
  from a b c d show ?thesis by blast
qed

text \<open>
  C9. The models listing is a constant: whatever the configured backends, the Load Cache
  or the baseline's selector state, both variants return the same list of exactly three
  model entries, each with \<open>replicas = 2\<close>.
\<close>

theorem list_models_is_constant:
  "list_models eps c =
     JObj [(''object'', JStr ''list''),
           (''data'',
            JArr [JObj [(''id'', JStr ''meta-llama/Llama-3.1-8B-Instruct''),
                        (''object'', JStr ''model''), (''replicas'', JInt 2)],
                  JObj [(''id'', JStr ''Qwen/Qwen2.5-7B-Instruct''),
                        (''object'', JStr ''model''), (''replicas'', JInt 2)],
                  JObj [(''id'', JStr ''meta-llama/Llama-3.3-70B-Instruct''),
                        (''object'', JStr ''model''), (''replicas'', JInt 2)]])] \<and>
   list_models_simple eps' sel = list_models eps c"
  by (simp add: list_models_def list_models_simple_def model_entry_def)

text \<open>
  C10. The adaptive variant's health call reports \<open>healthy\<close> exactly when some Load
  Cache entry has \<open>healthy = true\<close>; on the empty cache, the state before the first poll
  tick completes, it reports \<open>unhealthy\<close> with \<open>healthy_endpoints = 0\<close>, whatever the
  backends.
\<close>

theorem health_reports_cache:
  "(status (health eps c) = ''healthy'' \<longleftrightarrow> (\<exists>m \<in> set (map snd c). healthy m)) \<and>
   health eps [] = \<lparr>status = ''unhealthy'', endpoints = length eps, healthy_endpoints = 0\<rparr>"
  by (auto simp: health_def Let_def filter_empty_conv)

section \<open>The round-robin baseline and the proxy: claims C6 and C8\<close>

lemma six_selector_eq: "RoundRobinSelector six_backends = Inr six_selector"
  by (simp add: RoundRobinSelector_def six_selector_def bind_exn_def six_registry_eq)

text \<open>
  C6. Let \<open>sel\<close> be the baseline selector built at process start and \<open>reps\<close> the \<open>k\<close>
  replicas its registry has for model \<open>M\<close> (\<open>k = 2\<close> for each registered model).
  (1) \<open>n\<close> consecutive calls with model \<open>M\<close> return \<open>reps[0], ..., reps[k-1], reps[0], ...\<close>:
  call \<open>j\<close> returns \<open>reps[j mod k]\<close>, so the sequence has period \<open>k\<close> and each period is the
  replicas once, in registry order. (2) The same holds for the calls with model \<open>M\<close> inside
  any sequence of calls: calls for other models, for unknown models or without a model
  (which move other cursors or the global one) do not change what the calls for \<open>M\<close>
  return. (3) After any sequence of calls the cursor of \<open>M\<close> stands at the number of calls
  made with model \<open>M\<close>, modulo \<open>k\<close>: it advances once per such call and by nothing else.
\<close>

theorem round_robin_is_periodic:
  assumes "RoundRobinSelector eps = Inr sel" and "map_of (rr_model_endpoints sel) M = Some reps"
  shows "fst (run_calls sel (replicate n (JStr M))) =
           map (\<lambda>j. Inr (reps ! (j mod length reps))) [0..<n] \<and>
         answers_for (JStr M) calls (fst (run_calls sel calls)) =
           map (\<lambda>j. Inr (reps ! (j mod length reps)))
             [0..<length (filter (\<lambda>m. m = JStr M) calls)] \<and>
         map_of (model_iterators (snd (run_calls sel calls))) M =
           Some \<lparr>cycle_items = reps,
                 cycle_pos = length (filter (\<lambda>m. m = JStr M) calls) mod length reps\<rparr> \<and>
         length reps = 2"
proof -
  from selector_init [OF assms] have i: "M \<noteq> []" "reps \<noteq> []" "0 < length reps"
    "map_of (model_iterators sel) M = Some \<lparr>cycle_items = reps, cycle_pos = 0\<rparr>"
    and k: "length reps = 2" by auto
  have g: "answers_for (JStr M) cs (fst (run_calls sel cs)) =
           map (\<lambda>j. Inr (reps ! (j mod length reps)))
             [0..<length (filter (\<lambda>m. m = JStr M) cs)]" for cs
    using answers_from_cursor [OF i(1) i(2) i(3) i(4), of cs] by simp
  have c: "fst (run_calls sel (replicate n (JStr M))) =
           map (\<lambda>j. Inr (reps ! (j mod length reps))) [0..<n]"
    using g [of "replicate n (JStr M)"] by (simp add: answers_for_replicate length_run_calls)
  have p: "map_of (model_iterators (snd (run_calls sel calls))) M =
           Some \<lparr>cycle_items = reps,
                 cycle_pos = length (filter (\<lambda>m. m = JStr M) calls) mod length reps\<rparr>"
    using cursor_after_calls [OF i(1) i(2) i(3) i(4), of calls] by simp
  from c g [of calls] p k show ?thesis by blast
qed

theorem round_robin_is_periodic_witness:
  "RoundRobinSelector six_backends = Inr six_selector \<and>
   map_of (rr_model_endpoints six_selector) ''Qwen/Qwen2.5-7B-Instruct'' =
     Some [''http://vllm-3:8000'', ''http://vllm-4:8000''] \<and>
   fst (run_calls six_selector (replicate 5 (JStr ''Qwen/Qwen2.5-7B-Instruct''))) =
     [Inr ''http://vllm-3:8000'', Inr ''http://vllm-4:8000'', Inr ''http://vllm-3:8000'',
      Inr ''http://vllm-4:8000'', Inr ''http://vllm-3:8000''] \<and>
   answers_for (JStr ''Qwen/Qwen2.5-7B-Instruct'')
     [JStr ''Qwen/Qwen2.5-7B-Instruct'', JNull, JStr ''meta-llama/Llama-3.1-8B-Instruct'',
      JStr ''Qwen/Qwen2.5-7B-Instruct'', JStr ''unknown-model'', JStr ''Qwen/Qwen2.5-7B-Instruct'']
     (fst (run_calls six_selector
        [JStr ''Qwen/Qwen2.5-7B-Instruct'', JNull, JStr ''meta-llama/Llama-3.1-8B-Instruct'',
         JStr ''Qwen/Qwen2.5-7B-Instruct'', JStr ''unknown-model'',
         JStr ''Qwen/Qwen2.5-7B-Instruct''])) =
     [Inr ''http://vllm-3:8000'', Inr ''http://vllm-4:8000'', Inr ''http://vllm-3:8000'']"
proof -
  let ?M = "''Qwen/Qwen2.5-7B-Instruct''"
  let ?reps = "[''http://vllm-3:8000'', ''http://vllm-4:8000'']"
  let ?calls = "[JStr ?M, JNull, JStr ''meta-llama/Llama-3.1-8B-Instruct'', JStr ?M,
                 JStr ''unknown-model'', JStr ?M]"
  have h1: "RoundRobinSelector six_backends = Inr six_selector" by (rule six_selector_eq)
  have h2: "map_of (rr_model_endpoints six_selector) ?M = Some ?reps"
    by (simp add: six_selector_def six_registry_def)
  note t = round_robin_is_periodic [OF h1 h2, where n = 5 and calls = ?calls]
  have five: "map (\<lambda>j. Inr (?reps ! (j mod length ?reps))) [0..<5] =
     [Inr ''http://vllm-3:8000'', Inr ''http://vllm-4:8000'', Inr ''http://vllm-3:8000'',
      Inr ''http://vllm-4:8000'', Inr (''http://vllm-3:8000'') :: exn + string]"
    by code_simp
  have three: "map (\<lambda>j. Inr (?reps ! (j mod length ?reps)))
        [0..<length (filter (\<lambda>m. m = JStr ?M) ?calls)] =
     [Inr ''http://vllm-3:8000'', Inr ''http://vllm-4:8000'',
      Inr (''http://vllm-3:8000'') :: exn + string]"
    by code_simp
  from t have "fst (run_calls six_selector (replicate 5 (JStr ?M))) =
      map (\<lambda>j. Inr (?reps ! (j mod length ?reps))) [0..<5]" by blast
  then have a: "fst (run_calls six_selector (replicate 5 (JStr ?M))) =
     [Inr ''http://vllm-3:8000'', Inr ''http://vllm-4:8000'', Inr ''http://vllm-3:8000'',
      Inr ''http://vllm-4:8000'', Inr ''http://vllm-3:8000'']"
    by (simp only: five)
  from t have "answers_for (JStr ?M) ?calls (fst (run_calls six_selector ?calls)) =
      map (\<lambda>j. Inr (?reps ! (j mod length ?reps)))
        [0..<length (filter (\<lambda>m. m = JStr ?M) ?calls)]" by blast
  then have b: "answers_for (JStr ?M) ?calls (fst (run_calls six_selector ?calls)) =
     [Inr ''http://vllm-3:8000'', Inr ''http://vllm-4:8000'', Inr ''http://vllm-3:8000'']"
    by (simp only: three)
  from h1 h2 a b show ?thesis by blast
qed

text \<open>
  C8. In both variants, an exception at any step inside the handler's \<open>try\<close> gives the
  caller one \<open>HTTPException\<close> with status 500 whose detail is \<open>str(e)\<close>: when
  \<open>request.json()\<close> raises; when the body is not an object, so that \<open>body.get\<close> raises;
  when the selection raises; when the post to the chosen backend raises; and when a
  non-streaming response cannot be decoded by \<open>response.json()\<close>. The log of posts shows
  that nothing is retried: no post when the failure precedes the forward, one post, to the
  chosen backend, otherwise, and never more than one post per request.
\<close>

theorem proxy_failure_is_one_500:
  "(req_json req = Inl e \<longrightarrow>
      proxy_request_smart eps c post req = (HTTPException 500 (str_exn e), []) \<and>
      fst (proxy_request_simple sel post req) = (HTTPException 500 (str_exn e), [])) \<and>
   (req_json req = Inr body \<and> body_get body ''model'' JNull = Inl e \<longrightarrow>
      proxy_request_smart eps c post req = (HTTPException 500 (str_exn e), []) \<and>
      fst (proxy_request_simple sel post req) = (HTTPException 500 (str_exn e), [])) \<and>
   (req_json req = Inr body \<and> body_get body ''model'' JNull = Inr model \<and>
    get_best_endpoint eps c model = Inl e \<longrightarrow>
      proxy_request_smart eps c post req = (HTTPException 500 (str_exn e), [])) \<and>
   (req_json req = Inr body \<and> body_get body ''model'' JNull = Inr model \<and>
    get_next_endpoint sel model = Inl e \<longrightarrow>
      fst (proxy_request_simple sel post req) = (HTTPException 500 (str_exn e), [])) \<and>
   (req_json req = Inr body \<and> body_get body ''model'' JNull = Inr model \<and>
    get_best_endpoint eps c model = Inr ep \<and>
    post (ep @ url_path req) body (req_headers req) = Inl e \<longrightarrow>
      proxy_request_smart eps c post req =
        (HTTPException 500 (str_exn e), [ep @ url_path req])) \<and>
   (req_json req = Inr body \<and> body_get body ''model'' JNull = Inr model \<and>
    get_next_endpoint sel model = Inr (ep, sel') \<and>
    post (ep @ url_path req) body (req_headers req) = Inl e \<longrightarrow>
      fst (proxy_request_simple sel post req) =
        (HTTPException 500 (str_exn e), [ep @ url_path req])) \<and>
   (req_json req = Inr body \<and> body_get body ''model'' JNull = Inr model \<and>
    get_best_endpoint eps c model = Inr ep \<and>
    post (ep @ url_path req) body (req_headers req) = Inr response \<and>
    body_get body ''stream'' (JBool False) = Inr stream \<and> \<not> truthy stream \<and>
    json_body response = Inl e \<longrightarrow>
      proxy_request_smart eps c post req =
        (HTTPException 500 (str_exn e), [ep @ url_path req])) \<and>
   (req_json req = Inr body \<and> body_get body ''model'' JNull = Inr model \<and>
    get_next_endpoint sel model = Inr (ep, sel') \<and>
    post (ep @ url_path req) body (req_headers req) = Inr response \<and>
    body_get body ''stream'' (JBool False) = Inr stream \<and> \<not> truthy stream \<and>
    json_body response = Inl e \<longrightarrow>
      fst (proxy_request_simple sel post req) =
        (HTTPException 500 (str_exn e), [ep @ url_path req])) \<and>
   length (snd (proxy_request_smart eps c post req)) \<le> 1 \<and>
   length (snd (fst (proxy_request_simple sel post req))) \<le> 1"
  using smart_posts_once [of eps c post req] simple_posts_once [of sel post req]
  by (simp add: proxy_request_smart_def proxy_request_simple_def except_500_def
        forward_request_def bind_exn_def Let_def)

theorem proxy_failure_is_one_500_witness:
  "proxy_request_smart six_backends busy_cache down_backend garbled_request =
     (HTTPException 500 ''Expecting value'', []) \<and>
   fst (proxy_request_simple six_selector down_backend garbled_request) =
     (HTTPException 500 ''Expecting value'', []) \<and>
   proxy_request_smart six_backends busy_cache down_backend (chat_request (JArr [])) =
     (HTTPException 500 (str_exn (AttributeError (JArr []))), []) \<and>
   fst (proxy_request_simple six_selector down_backend (chat_request (JArr []))) =
     (HTTPException 500 (str_exn (AttributeError (JArr []))), []) \<and>
   proxy_request_smart two_backends busy_cache down_backend
       (chat_request (JObj [(''model'', JStr ''Qwen/Qwen2.5-7B-Instruct'')])) =
     (HTTPException 500 ''list index out of range'', []) \<and>
   fst (proxy_request_simple six_selector down_backend
       (chat_request (JObj [(''model'', JArr [JStr ''Qwen/Qwen2.5-7B-Instruct''])]))) =
     (HTTPException 500
        (str_exn (TypeError (JArr [JStr ''Qwen/Qwen2.5-7B-Instruct'']))), []) \<and>
   proxy_request_smart six_backends busy_cache down_backend
       (chat_request (JObj [(''model'', JStr ''meta-llama/Llama-3.1-8B-Instruct'')])) =
     (HTTPException 500 ''All connection attempts failed'',
      [''http://vllm-2:8000/v1/chat/completions'']) \<and>
   fst (proxy_request_simple six_selector down_backend
       (chat_request (JObj [(''model'', JStr ''meta-llama/Llama-3.1-8B-Instruct'')]))) =
     (HTTPException 500 ''All connection attempts failed'',
      [''http://vllm-1:8000/v1/chat/completions'']) \<and>
   proxy_request_smart six_backends busy_cache garbling_backend
       (chat_request (JObj [(''model'', JStr ''meta-llama/Llama-3.1-8B-Instruct'')])) =
     (HTTPException 500 ''Expecting value'', [''http://vllm-2:8000/v1/chat/completions'']) \<and>
   fst (proxy_request_simple six_selector garbling_backend
       (chat_request (JObj [(''model'', JStr ''meta-llama/Llama-3.1-8B-Instruct'')]))) =
     (HTTPException 500 ''Expecting value'', [''http://vllm-1:8000/v1/chat/completions''])"
proof -
  let ?llama = "''meta-llama/Llama-3.1-8B-Instruct''"
  let ?ask = "JObj [(''model'', JStr ?llama)]"
  let ?path = "''/v1/chat/completions''"
  let ?garbled = "\<lparr>status_code = 200, content_type = Some ''text/plain'',
                   json_body = Inl bad_json, body_chunks = [''oops'']\<rparr>"
  have best: "get_best_endpoint six_backends busy_cache (JStr ?llama) = Inr ''http://vllm-2:8000''"
    by (simp add: get_best_endpoint_def bind_exn_def py_index_def dict_get_def model_endpoints_def
          six_backends_def busy_cache_def sample_def depth_of_def)
  obtain sel' where nxt:
    "get_next_endpoint six_selector (JStr ?llama) = Inr (''http://vllm-1:8000'', sel')"
    by (simp add: get_next_endpoint_def dict_contains_def bind_exn_def cycle_next_def
          cycle_of_def six_selector_def six_registry_def)
  have short: "get_best_endpoint two_backends busy_cache (JStr ''Qwen/Qwen2.5-7B-Instruct'') =
      Inl IndexError"
    by (simp add: get_best_endpoint_def bind_exn_def model_endpoints_short two_backends_def)
  have unhash: "get_next_endpoint six_selector (JArr [JStr ''Qwen/Qwen2.5-7B-Instruct'']) =
      Inl (TypeError (JArr [JStr ''Qwen/Qwen2.5-7B-Instruct'']))"
    by (simp add: get_next_endpoint_def dict_contains_def bind_exn_def)
  have a: "proxy_request_smart six_backends busy_cache down_backend garbled_request =
       (HTTPException 500 ''Expecting value'', []) \<and>
     fst (proxy_request_simple six_selector down_backend garbled_request) =
       (HTTPException 500 ''Expecting value'', [])"
    using proxy_failure_is_one_500
      [where req = garbled_request and e = bad_json and eps = six_backends and c = busy_cache
         and post = down_backend and sel = six_selector]
    by (simp add: garbled_request_def bad_json_def)
  have b: "proxy_request_smart six_backends busy_cache down_backend (chat_request (JArr [])) =
       (HTTPException 500 (str_exn (AttributeError (JArr []))), []) \<and>
     fst (proxy_request_simple six_selector down_backend (chat_request (JArr []))) =
       (HTTPException 500 (str_exn (AttributeError (JArr []))), [])"
    using proxy_failure_is_one_500
      [where req = "chat_request (JArr [])" and body = "JArr []" and e = "AttributeError (JArr [])"
         and eps = six_backends and c = busy_cache and post = down_backend
         and sel = six_selector]
    by (simp add: chat_request_def body_get_def)
  have c: "proxy_request_smart two_backends busy_cache down_backend
       (chat_request (JObj [(''model'', JStr ''Qwen/Qwen2.5-7B-Instruct'')])) =
     (HTTPException 500 ''list index out of range'', [])"
    using proxy_failure_is_one_500
      [where req = "chat_request (JObj [(''model'', JStr ''Qwen/Qwen2.5-7B-Instruct'')])"
         and body = "JObj [(''model'', JStr ''Qwen/Qwen2.5-7B-Instruct'')]"
         and model = "JStr ''Qwen/Qwen2.5-7B-Instruct''" and e = IndexError
         and eps = two_backends and c = busy_cache and post = down_backend] short
    by (simp add: chat_request_def body_get_def IndexError_def)
  have d: "fst (proxy_request_simple six_selector down_backend
       (chat_request (JObj [(''model'', JArr [JStr ''Qwen/Qwen2.5-7B-Instruct''])]))) =
     (HTTPException 500
        (str_exn (TypeError (JArr [JStr ''Qwen/Qwen2.5-7B-Instruct'']))), [])"
    using proxy_failure_is_one_500
      [where req = "chat_request (JObj [(''model'', JArr [JStr ''Qwen/Qwen2.5-7B-Instruct''])])"
         and body = "JObj [(''model'', JArr [JStr ''Qwen/Qwen2.5-7B-Instruct''])]"
         and model = "JArr [JStr ''Qwen/Qwen2.5-7B-Instruct'']"
         and e = "TypeError (JArr [JStr ''Qwen/Qwen2.5-7B-Instruct''])"
         and sel = six_selector and post = down_backend] unhash
    by (simp add: chat_request_def body_get_def)
  have e: "proxy_request_smart six_backends busy_cache down_backend (chat_request ?ask) =
     (HTTPException 500 ''All connection attempts failed'',
      [''http://vllm-2:8000/v1/chat/completions''])"
    using proxy_failure_is_one_500
      [where req = "chat_request ?ask" and body = ?ask and model = "JStr ?llama"
         and e = refused and ep = "''http://vllm-2:8000''"
         and eps = six_backends and c = busy_cache and post = down_backend] best
    by (simp add: chat_request_def body_get_def down_backend_def refused_def)
  have f: "fst (proxy_request_simple six_selector down_backend (chat_request ?ask)) =
     (HTTPException 500 ''All connection attempts failed'',
      [''http://vllm-1:8000/v1/chat/completions''])"
    using proxy_failure_is_one_500
      [where req = "chat_request ?ask" and body = ?ask and model = "JStr ?llama"
         and e = refused and ep = "''http://vllm-1:8000''" and sel' = sel'
         and sel = six_selector and post = down_backend] nxt
    by (simp add: chat_request_def body_get_def down_backend_def refused_def)
  have g: "proxy_request_smart six_backends busy_cache garbling_backend (chat_request ?ask) =
     (HTTPException 500 ''Expecting value'', [''http://vllm-2:8000/v1/chat/completions''])"
    using proxy_failure_is_one_500
      [where req = "chat_request ?ask" and body = ?ask and model = "JStr ?llama"
         and e = bad_json and ep = "''http://vllm-2:8000''" and response = ?garbled
         and stream = "JBool False"
         and eps = six_backends and c = busy_cache and post = garbling_backend] best
    by (simp add: chat_request_def body_get_def garbling_backend_def bad_json_def)
  have h: "fst (proxy_request_simple six_selector garbling_backend (chat_request ?ask)) =
     (HTTPException 500 ''Expecting value'', [''http://vllm-1:8000/v1/chat/completions''])"
    using proxy_failure_is_one_500
      [where req = "chat_request ?ask" and body = ?ask and model = "JStr ?llama"
         and e = bad_json and ep = "''http://vllm-1:8000''" and sel' = sel'
         and response = ?garbled and stream = "JBool False"
         and sel = six_selector and post = garbling_backend] nxt
    by (simp add: chat_request_def body_get_def garbling_backend_def bad_json_def)
  from a b c d e f g h show ?thesis by blast
qed

end
